theory Spec2Isabelle
  imports Main "HOL-Library.Char_ord" "HOL-Library.List_Lexorder" "HOL-Library.AList"
begin

section \<open>Data model of the converter\<close>

text \<open>
  The converter (\<^verbatim>\<open>gns3converter/converter.py\<close>) works on Python dictionaries. The
  dictionaries whose keys the code reads are records here; a key that the code adds later
  (\<^verbatim>\<open>link_id\<close>, \<^verbatim>\<open>description\<close> of a port, \<^verbatim>\<open>id\<close> of a link) is an
  optional field, \<open>None\<close> while the key is absent. Python's \<^verbatim>\<open>None\<close> in an id is
  \<open>None\<close> of an \<open>int option\<close>. Strings are 8-bit character lists, compared the way Python
  compares them (by code point, lexicographically). A field is named after its key, with
  the dictionary's name in front where the key alone is taken (\<^verbatim>\<open>id\<close>, \<^verbatim>\<open>name\<close>) or is
  a key of another dictionary too.
\<close>

datatype error = KeyError string | IndexError | ValueError | TypeError

text \<open>
  A port dictionary: the keys \<^verbatim>\<open>id\<close> and \<^verbatim>\<open>name\<close>, and the keys \<^verbatim>\<open>link_id\<close> and
  \<^verbatim>\<open>description\<close> that \<^verbatim>\<open>add_node_connections\<close> writes.
\<close>

record port =
  port_id :: int
  port_name :: string
  port_link_id :: "int option"
  port_description :: "string option"

text \<open>
  A node dictionary: \<^verbatim>\<open>node['id']\<close>, \<^verbatim>\<open>node['properties']['name']\<close>, \<^verbatim>\<open>node['type']\<close>,
  \<^verbatim>\<open>node['ports']\<close>. Every other key of a node or of a port is in the extension of its
  record, so the functions below are defined for nodes and ports with any further keys.
\<close>

record 'p node =
  node_id :: int
  node_name :: string
  node_type :: string
  node_ports :: "'p port_scheme list"

text \<open>
  A candidate link, as the node builder appends it to \<^verbatim>\<open>self.links\<close>: the keys
  \<^verbatim>\<open>source_node_id\<close>, \<^verbatim>\<open>source_port_id\<close>, \<^verbatim>\<open>source_port_name\<close>, \<^verbatim>\<open>source_dev\<close>,
  \<^verbatim>\<open>dest_dev\<close> and \<^verbatim>\<open>dest_port\<close>.
\<close>

record cand =
  cand_source_node_id :: int
  cand_source_port_id :: int
  cand_source_port_name :: string
  cand_source_dev :: string
  dest_dev :: string
  dest_port :: string

text \<open>
  A resolved link, as \<^verbatim>\<open>generate_links\<close> builds it (lines 220 to 224). The field
  \<open>link_id\<close> is the key \<^verbatim>\<open>id\<close>, which the second loop sets. Two links are equal as
  records exactly when the two dictionaries are equal in Python.
\<close>

record link =
  description :: string
  destination_node_id :: "int option"
  destination_port_id :: "int option"
  source_port_id :: int
  source_node_id :: int
  link_id :: "int option"

section \<open>Resolving a destination: \<^verbatim>\<open>convert_destination_to_id\<close>\<close>

text \<open>The inner loop over \<^verbatim>\<open>node['ports']\<close>: the id of the first port with the name.\<close>

fun port_id_by_name :: "string \<Rightarrow> 'p port_scheme list \<Rightarrow> int option" where
  "port_id_by_name destination_port [] = None"
| "port_id_by_name destination_port (p # ps) =
     (if destination_port = port_name p then Some (port_id p)
      else port_id_by_name destination_port ps)"

text \<open>
  The branch \<^verbatim>\<open>destination_node != 'NIO'\<close>: the first node with the name ends the loop
  (\<^verbatim>\<open>break\<close>), whether or not one of its ports matches. The result is
  \<open>(device_id, device_name, port_id)\<close>.
\<close>

fun convert_named ::
  "string \<Rightarrow> string \<Rightarrow> ('p, 'a) node_scheme list \<Rightarrow> int option \<times> string option \<times> int option" where
  "convert_named destination_node destination_port [] = (None, None, None)"
| "convert_named destination_node destination_port (n # ns) =
     (if destination_node = node_name n
      then (Some (node_id n), Some destination_node,
            port_id_by_name destination_port (node_ports n))
      else convert_named destination_node destination_port ns)"

text \<open>
  The branch for the sentinel \<^verbatim>\<open>'NIO'\<close>: the \<^verbatim>\<open>break\<close> of line 308 sits in the body of
  \<^verbatim>\<open>if node['type'] == 'Cloud'\<close>, after the loop over the ports, so the first Cloud node
  ends the loop over the nodes whether or not one of its ports matched.
\<close>

fun convert_nio ::
  "string \<Rightarrow> ('p, 'a) node_scheme list \<Rightarrow> int option \<times> string option \<times> int option" where
  "convert_nio destination_port [] = (None, None, None)"
| "convert_nio destination_port (n # ns) =
     (if node_type n = ''Cloud''
      then (case port_id_by_name destination_port (node_ports n) of
              Some pid \<Rightarrow> (Some (node_id n), Some (node_name n), Some pid)
            | None \<Rightarrow> (None, None, None))
      else convert_nio destination_port ns)"

definition convert_destination_to_id ::
  "string \<Rightarrow> string \<Rightarrow> ('p, 'a) node_scheme list \<Rightarrow> int option \<times> string option \<times> int option" where
  "convert_destination_to_id destination_node destination_port nodes =
     (if destination_node \<noteq> ''NIO''
      then convert_named destination_node destination_port nodes
      else convert_nio destination_port nodes)"

section \<open>Back-annotation: \<^verbatim>\<open>add_node_connections\<close> and its helpers\<close>

text \<open>
  \<^verbatim>\<open>get_node_name_from_id\<close>: the name of the first node with the id, the empty string
  when there is none. The id is a destination id (possibly \<^verbatim>\<open>None\<close>) or a source id.
\<close>

fun get_node_name_from_id :: "int option \<Rightarrow> ('p, 'a) node_scheme list \<Rightarrow> string" where
  "get_node_name_from_id nid [] = ''''"
| "get_node_name_from_id nid (n # ns) =
     (if Some (node_id n) = nid then node_name n else get_node_name_from_id nid ns)"

fun port_name_by_id :: "int option \<Rightarrow> 'p port_scheme list \<Rightarrow> string option" where
  "port_name_by_id pid [] = None"
| "port_name_by_id pid (p # ps) =
     (if Some (port_id p) = pid then Some (port_name p) else port_name_by_id pid ps)"

text \<open>
  \<^verbatim>\<open>get_port_name_from_id\<close>: the inner loop breaks at the first port with the id, the
  outer loop has no \<^verbatim>\<open>break\<close>, so a later node with the same id and such a port
  overwrites \<^verbatim>\<open>port_name\<close>.
\<close>

fun get_port_name_loop ::
  "int option \<Rightarrow> int option \<Rightarrow> ('p, 'a) node_scheme list \<Rightarrow> string \<Rightarrow> string" where
  "get_port_name_loop nid pid [] pname = pname"
| "get_port_name_loop nid pid (n # ns) pname =
     (if Some (node_id n) = nid
      then (case port_name_by_id pid (node_ports n) of
              Some nm \<Rightarrow> get_port_name_loop nid pid ns nm
            | None \<Rightarrow> get_port_name_loop nid pid ns pname)
      else get_port_name_loop nid pid ns pname)"

definition get_port_name_from_id ::
  "int option \<Rightarrow> int option \<Rightarrow> ('p, 'a) node_scheme list \<Rightarrow> string" where
  "get_port_name_from_id nid pid nodes = get_port_name_loop nid pid nodes ''''"

text \<open>
  The loop over \<^verbatim>\<open>node['ports']\<close> of \<^verbatim>\<open>add_node_connections\<close>: the first port with the
  id gets \<^verbatim>\<open>link_id\<close> and \<^verbatim>\<open>description\<close>, then \<^verbatim>\<open>break\<close>. \<^verbatim>\<open>link['id']\<close> is read
  there, and raises \<^verbatim>\<open>KeyError\<close> when the link has no id yet.
\<close>

fun annotate_port ::
  "int option \<Rightarrow> link \<Rightarrow> string \<Rightarrow> 'p port_scheme list \<Rightarrow> error + 'p port_scheme list" where
  "annotate_port pid l desc [] = Inr []"
| "annotate_port pid l desc (p # ps) =
     (if Some (port_id p) = pid
      then (case link_id l of
              None \<Rightarrow> Inl (KeyError ''id'')
            | Some i \<Rightarrow> Inr (p\<lparr>port_link_id := Some i, port_description := Some desc\<rparr> # ps))
      else (case annotate_port pid l desc ps of
              Inl e \<Rightarrow> Inl e
            | Inr ps' \<Rightarrow> Inr (p # ps')))"

text \<open>
  The loop over the nodes: a node with the source id is annotated at the source port;
  \<^verbatim>\<open>elif\<close> it has the destination id, at the destination port.
\<close>

fun add_conn_loop ::
  "link \<Rightarrow> string \<Rightarrow> string \<Rightarrow> ('p, 'a) node_scheme list \<Rightarrow> error + ('p, 'a) node_scheme list" where
  "add_conn_loop l src_desc dest_desc [] = Inr []"
| "add_conn_loop l src_desc dest_desc (n # ns) =
     (case (if node_id n = source_node_id l
            then annotate_port (Some (source_port_id l)) l src_desc (node_ports n)
            else if Some (node_id n) = destination_node_id l
            then annotate_port (destination_port_id l) l dest_desc (node_ports n)
            else Inr (node_ports n)) of
        Inl e \<Rightarrow> Inl e
      | Inr ps \<Rightarrow>
          (case add_conn_loop l src_desc dest_desc ns of
             Inl e \<Rightarrow> Inl e
           | Inr ns' \<Rightarrow> Inr (n\<lparr>node_ports := ps\<rparr> # ns')))"

definition src_desc_of :: "link \<Rightarrow> ('p, 'a) node_scheme list \<Rightarrow> string" where
  "src_desc_of l nodes =
     ''connected to '' @ get_node_name_from_id (destination_node_id l) nodes
       @ '' on port '' @ get_port_name_from_id (destination_node_id l) (destination_port_id l) nodes"

definition dest_desc_of :: "link \<Rightarrow> ('p, 'a) node_scheme list \<Rightarrow> string" where
  "dest_desc_of l nodes =
     ''connected to '' @ get_node_name_from_id (Some (source_node_id l)) nodes
       @ '' on port ''
       @ get_port_name_from_id (Some (source_node_id l)) (Some (source_port_id l)) nodes"

definition add_node_connections ::
  "link \<Rightarrow> ('p, 'a) node_scheme list \<Rightarrow> error + ('p, 'a) node_scheme list" where
  "add_node_connections l nodes =
     add_conn_loop l (src_desc_of l nodes) (dest_desc_of l nodes) nodes"

section \<open>Building and deduplicating the links: \<^verbatim>\<open>generate_links\<close>\<close>

text \<open>
  Python's \<^verbatim>\<open>str\<close> on an integer (decimal, \<^verbatim>\<open>-\<close> for a negative one) and on
  \<^verbatim>\<open>None\<close>, and \<^verbatim>\<open>%s\<close> on a string or \<^verbatim>\<open>None\<close>.
\<close>

definition digit_char :: "nat \<Rightarrow> char" where
  "digit_char d = ''0123456789'' ! d"

function str_nat :: "nat \<Rightarrow> string" where
  "str_nat n = (if n < 10 then [digit_char n] else str_nat (n div 10) @ [digit_char (n mod 10)])"
  by pat_completeness auto
termination
  by (relation "measure (\<lambda>n. n)") auto

declare str_nat.simps [simp del]

definition str_int :: "int \<Rightarrow> string" where
  "str_int i = (if i < 0 then CHR ''-'' # str_nat (nat (- i)) else str_nat (nat i))"

definition str_opt_int :: "int option \<Rightarrow> string" where
  "str_opt_int x = (case x of None \<Rightarrow> ''None'' | Some i \<Rightarrow> str_int i)"

definition str_opt_string :: "string option \<Rightarrow> string" where
  "str_opt_string x = (case x of None \<Rightarrow> ''None'' | Some s \<Rightarrow> s)"

text \<open>
  \<^verbatim>\<open>int_type.upper()\<close> for one character: the ASCII letters are mapped and every other
  character is left as it is, which is what Python does on ASCII strings.
\<close>

definition upper :: "char \<Rightarrow> string" where
  "upper c =
     (case map_of (zip ''abcdefghijklmnopqrstuvwxyz'' ''ABCDEFGHIJKLMNOPQRSTUVWXYZ'') c of
        Some u \<Rightarrow> [u]
      | None \<Rightarrow> [c])"

text \<open>\<^verbatim>\<open>s.replace(old, new)\<close> for a one-character \<^verbatim>\<open>old\<close>: every occurrence.\<close>

definition replace_char :: "char \<Rightarrow> string \<Rightarrow> string \<Rightarrow> string" where
  "replace_char old new s = concat (map (\<lambda>c. if c = old then new else [c]) s)"

text \<open>
  Lines 205 to 210. \<^verbatim>\<open>INTERFACE_RE\<close> (of \<^verbatim>\<open>gns3converter.interfaces\<close>) and
  \<^verbatim>\<open>PORT_TYPES\<close> (of \<^verbatim>\<open>gns3converter.adapters\<close>) are not in the source at hand, so
  they are parameters: whether the pattern is found in a string, and the table as a map.
  \<^verbatim>\<open>link['dest_port'][0]\<close> raises \<^verbatim>\<open>IndexError\<close> on the empty string, and the table
  lookup \<^verbatim>\<open>KeyError\<close> on a missing key.
\<close>

definition expand_port_name ::
  "(string \<Rightarrow> bool) \<Rightarrow> (string \<rightharpoonup> string) \<Rightarrow> string \<Rightarrow> error + string" where
  "expand_port_name INTERFACE_RE PORT_TYPES dp =
     (if INTERFACE_RE dp
      then (case dp of
              [] \<Rightarrow> Inl IndexError
            | int_type # rest \<Rightarrow>
                (case PORT_TYPES (upper int_type) of
                   None \<Rightarrow> Inl (KeyError (upper int_type))
                 | Some full \<Rightarrow> Inr (replace_char int_type full dp)))
      else Inr dp)"

text \<open>The body of the first loop (lines 203 to 224): one candidate becomes one link.\<close>

definition resolve_link ::
  "(string \<Rightarrow> bool) \<Rightarrow> (string \<rightharpoonup> string) \<Rightarrow> ('p, 'a) node_scheme list \<Rightarrow> cand \<Rightarrow> error + link" where
  "resolve_link INTERFACE_RE PORT_TYPES nodes c =
     (case expand_port_name INTERFACE_RE PORT_TYPES (dest_port c) of
        Inl e \<Rightarrow> Inl e
      | Inr dp \<Rightarrow>
          (case convert_destination_to_id (dest_dev c) dp nodes of
             (dest_node_id, dest_node_name, dest_port_id) \<Rightarrow>
               Inr \<lparr>description =
                      ''Link from '' @ cand_source_dev c @ '' port '' @ cand_source_port_name c
                        @ '' to '' @ str_opt_string dest_node_name @ '' port '' @ dp,
                    destination_node_id = dest_node_id,
                    destination_port_id = dest_port_id,
                    source_port_id = cand_source_port_id c,
                    source_node_id = cand_source_node_id c,
                    link_id = None\<rparr>))"

fun resolve_links ::
  "(string \<Rightarrow> bool) \<Rightarrow> (string \<rightharpoonup> string) \<Rightarrow> ('p, 'a) node_scheme list \<Rightarrow> cand list
     \<Rightarrow> link list \<Rightarrow> error + link list" where
  "resolve_links INTERFACE_RE PORT_TYPES nodes [] links = Inr links"
| "resolve_links INTERFACE_RE PORT_TYPES nodes (c # cs) links =
     (case resolve_link INTERFACE_RE PORT_TYPES nodes c of
        Inl e \<Rightarrow> Inl e
      | Inr l \<Rightarrow> resolve_links INTERFACE_RE PORT_TYPES nodes cs (links @ [l]))"

text \<open>The two keys compared by the second loop (lines 229 to 233).\<close>

definition t_link_of :: "link \<Rightarrow> string" where
  "t_link_of l = str_int (source_node_id l) @ '':'' @ str_int (source_port_id l)"

definition d_link_of :: "link \<Rightarrow> string" where
  "d_link_of l2 =
     str_opt_int (destination_node_id l2) @ '':'' @ str_opt_int (destination_port_id l2)"

text \<open>
  The inner loop (lines 231 to 236): the first \<^verbatim>\<open>link2\<close> of the list whose destination
  key is \<^verbatim>\<open>t_link\<close>.
\<close>

fun find_dest :: "string \<Rightarrow> link list \<Rightarrow> link option" where
  "find_dest t_link [] = None"
| "find_dest t_link (link2 # rest) =
     (if t_link = d_link_of link2 then Some link2 else find_dest t_link rest)"

text \<open>The index of the first element equal to \<open>x\<close> (the length when there is none).\<close>

fun index_of :: "'a \<Rightarrow> 'a list \<Rightarrow> nat" where
  "index_of x [] = 0"
| "index_of x (y # ys) = (if y = x then 0 else Suc (index_of x ys))"

text \<open>
  One round of the outer loop (lines 228 to 238) at index \<open>i\<close>. \<^verbatim>\<open>links.remove(link2)\<close>
  removes the first element equal to \<^verbatim>\<open>link2\<close> (dictionary equality, here equality of
  records), at index \<open>k\<close>. The list is mutated in place, so the object \<^verbatim>\<open>link\<close>, which
  was at index \<open>i\<close>, is afterwards at \<open>i - 1\<close> when \<open>k < i\<close>, out of the list when
  \<open>k = i\<close>, and still at \<open>i\<close> otherwise; \<^verbatim>\<open>link['id'] = link_id\<close> then writes to that
  object. The result is the list and the object \<^verbatim>\<open>link\<close> with its id.
\<close>

definition dedup_step :: "nat \<Rightarrow> int \<Rightarrow> link list \<Rightarrow> link list \<times> link" where
  "dedup_step i lid links =
     (let l = links ! i;
          l' = l\<lparr>link_id := Some lid\<rparr>
      in case find_dest (t_link_of l) links of
           None \<Rightarrow> (links[i := l'], l')
         | Some link2 \<Rightarrow>
             (let k = index_of link2 links;
                  links' = remove1 link2 links
              in if k < i then (links'[i - 1 := l'], l')
                 else if k = i then (links', l')
                 else (links'[i := l'], l')))"

text \<open>
  The outer loop. Python's list iterator keeps an index and compares it with the current
  length at every round, so after round \<open>i\<close> the loop goes on at \<open>i + 1\<close> of the
  mutated list. The nodes are mutated by \<^verbatim>\<open>add_node_connections\<close> and returned too.
\<close>

function dedup_loop ::
  "nat \<Rightarrow> int \<Rightarrow> link list \<Rightarrow> ('p, 'a) node_scheme list
     \<Rightarrow> error + (link list \<times> ('p, 'a) node_scheme list)" where
  "dedup_loop i lid links nodes =
     (if i < length links
      then (case dedup_step i lid links of
              (links', l') \<Rightarrow>
                (case add_node_connections l' nodes of
                   Inl e \<Rightarrow> Inl e
                 | Inr nodes' \<Rightarrow> dedup_loop (i + 1) (lid + 1) links' nodes'))
      else Inr (links, nodes))"
  by pat_completeness auto
termination
  by (relation "measure (\<lambda>(i, lid, links, nodes). length links - i)")
     (auto simp: dedup_step_def Let_def length_remove1 split: option.splits if_splits)

declare dedup_loop.simps [simp del]

text \<open>
  The whole function; \<open>candidates\<close> is the attribute \<^verbatim>\<open>self.links\<close>, filled by
  \<^verbatim>\<open>generate_nodes\<close>, and the first link id is 1.
\<close>

definition generate_links ::
  "(string \<Rightarrow> bool) \<Rightarrow> (string \<rightharpoonup> string) \<Rightarrow> cand list \<Rightarrow> ('p, 'a) node_scheme list
     \<Rightarrow> error + (link list \<times> ('p, 'a) node_scheme list)" where
  "generate_links INTERFACE_RE PORT_TYPES candidates nodes =
     (case resolve_links INTERFACE_RE PORT_TYPES nodes candidates [] of
        Inl e \<Rightarrow> Inl e
      | Inr links \<Rightarrow> dedup_loop 0 1 links nodes)"

section \<open>Values of the topology mapping\<close>

text \<open>
  The raw topology is a \<^verbatim>\<open>ConfigObj\<close>: a dictionary (insertion ordered, keys distinct)
  whose values are scalars or nested sections. A value is an integer, a string or a
  dictionary; a dictionary is an association list in insertion order, read with
  \<open>map_of\<close> and written with \<open>AList.update\<close> (a new key goes to the end, as in Python;
  a list with a key twice is read at the first).
  \<^verbatim>\<open>isinstance(v, dict)\<close> holds for \<open>VDict\<close> only.
\<close>

datatype val = VInt int | VStr string | VDict "(string \<times> val) list"

text \<open>\<^verbatim>\<open>v[k]\<close> for a string key: \<^verbatim>\<open>KeyError\<close> on a dictionary without the key.\<close>

fun getitem :: "val \<Rightarrow> string \<Rightarrow> error + val" where
  "getitem (VDict d) k = (case map_of d k of None \<Rightarrow> Inl (KeyError k) | Some v \<Rightarrow> Inr v)"
| "getitem (VStr s) k = Inl TypeError"
| "getitem (VInt i) k = Inl TypeError"

section \<open>The host instances: \<^verbatim>\<open>get_instances\<close>\<close>

text \<open>\<^verbatim>\<open>item.index(':')\<close>: the index of the first occurrence, \<^verbatim>\<open>ValueError\<close> (here \<open>None\<close>) without one.\<close>

fun str_index :: "char \<Rightarrow> string \<Rightarrow> nat option" where
  "str_index c [] = None"
| "str_index c (x # xs) = (if x = c then Some 0 else map_option Suc (str_index c xs))"

text \<open>
  The loop of \<^verbatim>\<open>get_instances\<close> over the sorted keys. \<^verbatim>\<open>ip_address\<close> is the standard
  library's; it is a parameter: \<open>ip_address addr\<close> holds when the call returns, and
  fails when it raises \<^verbatim>\<open>ValueError\<close>, which the loop catches. \<^verbatim>\<open>item.index\<close> is outside
  the \<^verbatim>\<open>try\<close>, so its \<^verbatim>\<open>ValueError\<close> would escape.
\<close>

fun get_instances_loop ::
  "(string \<Rightarrow> bool) \<Rightarrow> string list \<Rightarrow> string list \<Rightarrow> error + string list" where
  "get_instances_loop ip_address [] instances = Inr instances"
| "get_instances_loop ip_address (item # items) instances =
     (if CHR '':'' \<in> set item
      then (case str_index CHR '':'' item of
              None \<Rightarrow> Inl ValueError
            | Some delim_pos \<Rightarrow>
                (let addr = take delim_pos item
                 in if ip_address addr
                    then get_instances_loop ip_address items (instances @ [item])
                    else get_instances_loop ip_address items instances))
      else get_instances_loop ip_address items instances)"

definition get_instances :: "(string \<Rightarrow> bool) \<Rightarrow> (string \<times> val) list \<Rightarrow> error + string list" where
  "get_instances ip_address config = get_instances_loop ip_address (sort (map fst config)) []"

section \<open>Grouping the topology: \<^verbatim>\<open>process_topology\<close>\<close>

text \<open>Errors are threaded through the statements of a function body with \<open>bindE\<close>.\<close>

definition bindE :: "error + 'a \<Rightarrow> ('a \<Rightarrow> error + 'b) \<Rightarrow> error + 'b" where
  "bindE m f = (case m of Inl e \<Rightarrow> Inl e | Inr x \<Rightarrow> f x)"

text \<open>
  The class \<^verbatim>\<open>LegacyTopology\<close> (\<^verbatim>\<open>gns3converter.topology\<close>) is not in the source at hand.
  A topology object is the attributes that \<^verbatim>\<open>process_topology\<close> reads and writes
  (\<^verbatim>\<open>devices\<close>, \<^verbatim>\<open>conf\<close>, \<^verbatim>\<open>hv_id\<close>) and, in the record's extension, whatever else
  the class keeps. The constructor and the two methods that \<^verbatim>\<open>process_topology\<close> calls
  are parameters, collected in a record; each may raise.
\<close>

record legacy_topology =
  devices :: "(string \<times> val) list"
  conf :: "(string \<times> val) list"
  hv_id :: int

record 'a topology_class =
  LegacyTopology ::
    "string list \<Rightarrow> (string \<times> val) list \<Rightarrow> error + 'a legacy_topology_scheme"
  add_conf_item ::
    "string \<Rightarrow> string \<Rightarrow> 'a legacy_topology_scheme \<Rightarrow> error + 'a legacy_topology_scheme"
  add_physical_item ::
    "string \<Rightarrow> string \<Rightarrow> 'a legacy_topology_scheme \<Rightarrow> error + 'a legacy_topology_scheme"

text \<open>
  The inner loop of \<^verbatim>\<open>process_topology\<close> (lines 100 to 107) over the sorted item names of
  one instance. \<open>MODEL_TRANSFORM\<close> (of \<^verbatim>\<open>gns3converter.models\<close>, not in the source at hand)
  is a parameter: the keys of the table. An item whose value is not a dictionary takes
  neither branch.
\<close>

fun process_items ::
  "'a topology_class \<Rightarrow> string list \<Rightarrow> string \<Rightarrow> (string \<times> val) list \<Rightarrow> string list
     \<Rightarrow> 'a legacy_topology_scheme \<Rightarrow> error + 'a legacy_topology_scheme" where
  "process_items T MODEL_TRANSFORM instance sec [] topo = Inr topo"
| "process_items T MODEL_TRANSFORM instance sec (item # items) topo =
     (case map_of sec item of
        None \<Rightarrow> Inl (KeyError item)
      | Some (VDict d) \<Rightarrow>
          (if item \<in> set MODEL_TRANSFORM
           then bindE (add_conf_item T instance item topo)
                  (process_items T MODEL_TRANSFORM instance sec items)
           else bindE (add_physical_item T instance item topo)
                  (process_items T MODEL_TRANSFORM instance sec items))
      | Some _ \<Rightarrow> process_items T MODEL_TRANSFORM instance sec items topo)"

text \<open>
  The outer loop (lines 99 to 108) over the sorted sections. \<^verbatim>\<open>old_top[instance]\<close> raises
  \<^verbatim>\<open>KeyError\<close> for a missing key. \<^verbatim>\<open>sorted\<close> of a string gives its characters, and
  indexing the string with one raises \<^verbatim>\<open>TypeError\<close>, so a string value passes only when
  it is empty; \<^verbatim>\<open>sorted\<close> of an integer raises \<^verbatim>\<open>TypeError\<close>.
\<close>

fun process_instances ::
  "'a topology_class \<Rightarrow> string list \<Rightarrow> (string \<times> val) list \<Rightarrow> string list
     \<Rightarrow> 'a legacy_topology_scheme \<Rightarrow> error + 'a legacy_topology_scheme" where
  "process_instances T MODEL_TRANSFORM old_top [] topo = Inr topo"
| "process_instances T MODEL_TRANSFORM old_top (instance # rest) topo =
     (case map_of old_top instance of
        None \<Rightarrow> Inl (KeyError instance)
      | Some (VDict sec) \<Rightarrow>
          bindE (process_items T MODEL_TRANSFORM instance sec (sort (map fst sec)) topo)
            (\<lambda>topo'. process_instances T MODEL_TRANSFORM old_top rest
                        (topo'\<lparr>hv_id := hv_id topo' + 1\<rparr>))
      | Some (VStr s) \<Rightarrow>
          (if s = [] then process_instances T MODEL_TRANSFORM old_top rest
                            (topo\<lparr>hv_id := hv_id topo + 1\<rparr>)
           else Inl TypeError)
      | Some (VInt i) \<Rightarrow> Inl TypeError)"

definition process_topology ::
  "'a topology_class \<Rightarrow> string list \<Rightarrow> string list \<Rightarrow> (string \<times> val) list
     \<Rightarrow> error + ((string \<times> val) list \<times> (string \<times> val) list)" where
  "process_topology T MODEL_TRANSFORM sections old_top =
     bindE (LegacyTopology T sections old_top) (\<lambda>topo.
     bindE (process_instances T MODEL_TRANSFORM old_top (sort sections) topo) (\<lambda>topo'.
       Inr (devices topo', conf topo')))"

section \<open>The calls that \<^verbatim>\<open>process_topology\<close> makes\<close>

text \<open>
  What \<^verbatim>\<open>process_topology\<close> does to the topology object, as a list of calls: the two
  methods with their arguments, and the statement \<^verbatim>\<open>topo.hv_id += 1\<close>.
\<close>

datatype call = Conf string string | Phys string string | NextInstance

fun do_call ::
  "'a topology_class \<Rightarrow> call \<Rightarrow> 'a legacy_topology_scheme \<Rightarrow> error + 'a legacy_topology_scheme" where
  "do_call T (Conf instance item) topo = add_conf_item T instance item topo"
| "do_call T (Phys instance item) topo = add_physical_item T instance item topo"
| "do_call T NextInstance topo = Inr (topo\<lparr>hv_id := hv_id topo + 1\<rparr>)"

fun do_calls ::
  "'a topology_class \<Rightarrow> call list \<Rightarrow> 'a legacy_topology_scheme \<Rightarrow> error + 'a legacy_topology_scheme" where
  "do_calls T [] topo = Inr topo"
| "do_calls T (c # cs) topo = bindE (do_call T c topo) (do_calls T cs)"

text \<open>\<open>dict_valued sec item\<close>: the value of the item in the section is a dictionary.\<close>

definition dict_valued :: "(string \<times> val) list \<Rightarrow> string \<Rightarrow> bool" where
  "dict_valued sec item = (case map_of sec item of Some (VDict d) \<Rightarrow> True | _ \<Rightarrow> False)"

text \<open>
  The classification: one call for every dictionary-valued item of the section, in the
  sorted order of the names; a configuration item when the name is in the
  configuration-role table, a physical item otherwise.
\<close>

definition item_calls :: "string list \<Rightarrow> string \<Rightarrow> (string \<times> val) list \<Rightarrow> call list" where
  "item_calls config_roles instance sec =
     map (\<lambda>item. if item \<in> set config_roles then Conf instance item else Phys instance item)
       (filter (dict_valued sec) (sort (map fst sec)))"

definition instance_calls :: "string list \<Rightarrow> (string \<times> val) list \<Rightarrow> string \<Rightarrow> call list" where
  "instance_calls config_roles old_top instance =
     (case map_of old_top instance of
        Some (VDict sec) \<Rightarrow> item_calls config_roles instance sec @ [NextInstance]
      | _ \<Rightarrow> [])"

definition topology_calls :: "string list \<Rightarrow> string list \<Rightarrow> (string \<times> val) list \<Rightarrow> call list" where
  "topology_calls config_roles sections old_top =
     concat (map (instance_calls config_roles old_top) (sort sections))"

section \<open>The topology class as the specification words it\<close>

text \<open>
  Modelled from the spec: the class \<^verbatim>\<open>LegacyTopology\<close> is not in the source at hand. A new
  topology keeps the raw mapping it was made from, has no devices, no snippets and the
  counter \<^verbatim>\<open>hv_id\<close> at 0 (the position of the first instance).
\<close>

record spec_topology = legacy_topology +
  topo_old_top :: "(string \<times> val) list"

definition spec_LegacyTopology ::
  "string list \<Rightarrow> (string \<times> val) list \<Rightarrow> error + spec_topology" where
  "spec_LegacyTopology sections old_top =
     Inr \<lparr>devices = [], conf = [], hv_id = 0, topo_old_top = old_top\<rparr>"

text \<open>\<^verbatim>\<open>self.old_top[instance][item]\<close>, which both methods read.\<close>

definition old_top_item :: "spec_topology \<Rightarrow> string \<Rightarrow> string \<Rightarrow> error + val" where
  "old_top_item topo instance item =
     bindE (getitem (VDict (topo_old_top topo)) instance) (\<lambda>sec. getitem sec item)"

text \<open>
  Modelled from the spec: the method \<^verbatim>\<open>LegacyTopology.add_conf_item\<close> is not in the source
  at hand. The spec: a configuration item is routed into the configuration snippets,
  passed through unmodified. The snippet is stored under the item's name.
\<close>

definition spec_add_conf_item :: "string \<Rightarrow> string \<Rightarrow> spec_topology \<Rightarrow> error + spec_topology" where
  "spec_add_conf_item instance item topo =
     bindE (old_top_item topo instance item) (\<lambda>d.
       Inr (topo\<lparr>conf := AList.update item d (conf topo)\<rparr>))"

text \<open>\<^verbatim>\<open>d.update(other)\<close>: the keys of \<open>other\<close> are written in their order, last write wins.\<close>

definition dict_update :: "(string \<times> val) list \<Rightarrow> (string \<times> val) list \<Rightarrow> (string \<times> val) list" where
  "dict_update d other = foldl (\<lambda>acc (k, v). AList.update k v acc) d other"

text \<open>
  Modelled from the spec: the method \<^verbatim>\<open>LegacyTopology.add_physical_item\<close> is not in the
  source at hand. The spec: a physical item is merged into the record of its device
  (one record per device name, later items update the same record, last write wins per
  key), and the record's \<^verbatim>\<open>hv_id\<close> is set to the current counter. The record is stored
  under the item's name; what else the method writes into a record (its \<^verbatim>\<open>node_id\<close>, its
  type) is not part of the spec's contract of the grouper and is left out.
\<close>

definition spec_add_physical_item ::
  "string \<Rightarrow> string \<Rightarrow> spec_topology \<Rightarrow> error + spec_topology" where
  "spec_add_physical_item instance item topo =
     bindE (old_top_item topo instance item) (\<lambda>v.
       case v of
         VDict d \<Rightarrow>
           (let old = (case map_of (devices topo) item of Some (VDict r) \<Rightarrow> r | _ \<Rightarrow> [])
            in Inr (topo\<lparr>devices :=
                 AList.update item
                   (VDict (AList.update ''hv_id'' (VInt (hv_id topo)) (dict_update old d)))
                   (devices topo)\<rparr>))
       | _ \<Rightarrow> Inl TypeError)"

definition spec_topology_class :: "unit spec_topology_ext topology_class" where
  "spec_topology_class =
     \<lparr>LegacyTopology = spec_LegacyTopology,
      add_conf_item = spec_add_conf_item,
      add_physical_item = spec_add_physical_item\<rparr>"

section \<open>The grouper as the specification words it\<close>

text \<open>
  The specification's contract of the grouper, with the position of the instance in the
  sorted instance list taken from \<open>enumerate\<close> and not from a counter: a physical item
  of the instance at position \<open>pos\<close> is merged into its device record with \<^verbatim>\<open>hv_id\<close> set
  to \<open>pos\<close>; a configuration item goes to the configuration output; any other item has
  no effect. The result is the pair of the device records and the configuration output.
\<close>

definition merge_device ::
  "nat \<Rightarrow> string \<Rightarrow> (string \<times> val) list \<Rightarrow> (string \<times> val) list \<Rightarrow> (string \<times> val) list" where
  "merge_device pos item d devs =
     (let old = (case map_of devs item of Some (VDict r) \<Rightarrow> r | _ \<Rightarrow> [])
      in AList.update item
           (VDict (AList.update ''hv_id'' (VInt (int pos)) (dict_update old d))) devs)"

definition route_item ::
  "string list \<Rightarrow> nat \<Rightarrow> (string \<times> val) list
     \<Rightarrow> (string \<times> val) list \<times> (string \<times> val) list \<Rightarrow> string
     \<Rightarrow> (string \<times> val) list \<times> (string \<times> val) list" where
  "route_item config_roles pos sec out item =
     (case map_of sec item of
        Some (VDict d) \<Rightarrow>
          (if item \<in> set config_roles
           then (fst out, AList.update item (VDict d) (snd out))
           else (merge_device pos item d (fst out), snd out))
      | _ \<Rightarrow> out)"

definition route_instance ::
  "string list \<Rightarrow> (string \<times> val) list
     \<Rightarrow> (string \<times> val) list \<times> (string \<times> val) list \<Rightarrow> nat \<times> string
     \<Rightarrow> (string \<times> val) list \<times> (string \<times> val) list" where
  "route_instance config_roles old_top out pi =
     (case map_of old_top (snd pi) of
        Some (VDict sec) \<Rightarrow> foldl (route_item config_roles (fst pi) sec) out (sort (map fst sec))
      | _ \<Rightarrow> out)"

definition grouper_spec ::
  "string list \<Rightarrow> string list \<Rightarrow> (string \<times> val) list
     \<Rightarrow> (string \<times> val) list \<times> (string \<times> val) list" where
  "grouper_spec config_roles sections old_top =
     foldl (route_instance config_roles old_top) ([], []) (enumerate 0 (sort sections))"

section \<open>Building the nodes: \<^verbatim>\<open>generate_nodes\<close>\<close>





text \<open>
  The class \<^verbatim>\<open>Node\<close> (\<^verbatim>\<open>gns3converter.node\<close>) is not in the source at hand. A node object
  is the attributes that \<^verbatim>\<open>generate_nodes\<close> reads and writes (\<^verbatim>\<open>node\<close>, \<^verbatim>\<open>device_info\<close>,
  \<^verbatim>\<open>links\<close>, \<^verbatim>\<open>config\<close>) and, in the record's extension, whatever else the class
  keeps. The constructor and the methods that \<^verbatim>\<open>generate_nodes\<close> calls are parameters,
  collected in a record; each may raise.
\<close>

record node_obj =
  obj_node :: "(string \<times> val) list"
  obj_device_info :: "(string \<times> val) list"
  obj_links :: "cand list"
  obj_config :: "val list"













section \<open>Predicates used in the statements\<close>

text \<open>
  \<open>annotated_by l n p p'\<close>: the port \<open>p'\<close> is the port \<open>p\<close> of the node \<open>n\<close> with
  \<^verbatim>\<open>link_id\<close> set to the id of the link \<open>l\<close> and some \<^verbatim>\<open>description\<close>, every other
  key as it was, and \<open>p\<close> is an endpoint of \<open>l\<close>: the source port on a node with the
  source id, or the destination port on a node with the destination id and not the
  source id.
\<close>

definition annotated_by :: "link \<Rightarrow> ('p, 'a) node_scheme \<Rightarrow> 'p port_scheme \<Rightarrow> 'p port_scheme \<Rightarrow> bool" where
  "annotated_by l n p p' \<longleftrightarrow>
     p' = p\<lparr>port_link_id := link_id l, port_description := port_description p'\<rparr> \<and>
     link_id l \<noteq> None \<and>
     ((node_id n = source_node_id l \<and> port_id p = source_port_id l) \<or>
      (node_id n \<noteq> source_node_id l \<and> Some (node_id n) = destination_node_id l \<and>
       Some (port_id p) = destination_port_id l))"

text \<open>
  \<open>unresolved_from sn sp l\<close>: the link \<open>l\<close> starts at the port \<open>sp\<close> of the node \<open>sn\<close>
  and both its destination ids are \<^verbatim>\<open>None\<close>.
\<close>

definition unresolved_from :: "int \<Rightarrow> int \<Rightarrow> link \<Rightarrow> bool" where
  "unresolved_from sn sp l \<longleftrightarrow>
     destination_node_id l = None \<and> destination_port_id l = None \<and>
     source_node_id l = sn \<and> source_port_id l = sp"

text \<open>
  \<open>same_edge a b\<close>: the two links denote the same undirected edge, that is the source
  pair of each is the destination pair of the other.
\<close>

definition same_edge :: "link \<Rightarrow> link \<Rightarrow> bool" where
  "same_edge a b \<longleftrightarrow>
     destination_node_id b = Some (source_node_id a) \<and>
     destination_port_id b = Some (source_port_id a) \<and>
     destination_node_id a = Some (source_node_id b) \<and>
     destination_port_id a = Some (source_port_id b)"






section \<open>Inputs used in the statements\<close>

text \<open>
  Three routers with one port each, the ports named \<open>pn\<close>, the canonical name that the
  shorthand \<^verbatim>\<open>f0/0\<close> expands to. \<^verbatim>\<open>R1\<close> and \<^verbatim>\<open>R2\<close> name each other's port (a link
  written on both sides), and \<^verbatim>\<open>R0\<close> has an entry that names the port of \<^verbatim>\<open>R1\<close> too.
  The candidates are in the order of the nodes, as \<^verbatim>\<open>generate_nodes\<close> collects them.
\<close>

definition stale_entry_cands :: "cand list" where
  "stale_entry_cands =
     [\<lparr>cand_source_node_id = 0, cand_source_port_id = 1, cand_source_port_name = ''f0/0'',
       cand_source_dev = ''R0'', dest_dev = ''R1'', dest_port = ''f0/0''\<rparr>,
      \<lparr>cand_source_node_id = 1, cand_source_port_id = 2, cand_source_port_name = ''f0/0'',
       cand_source_dev = ''R1'', dest_dev = ''R2'', dest_port = ''f0/0''\<rparr>,
      \<lparr>cand_source_node_id = 2, cand_source_port_id = 3, cand_source_port_name = ''f0/0'',
       cand_source_dev = ''R2'', dest_dev = ''R1'', dest_port = ''f0/0''\<rparr>]"

definition stale_entry_nodes :: "string \<Rightarrow> unit node list" where
  "stale_entry_nodes pn =
     [\<lparr>node_id = 0, node_name = ''R0'', node_type = ''Router'',
       node_ports = [\<lparr>port_id = 1, port_name = pn, port_link_id = None,
                      port_description = None\<rparr>]\<rparr>,
      \<lparr>node_id = 1, node_name = ''R1'', node_type = ''Router'',
       node_ports = [\<lparr>port_id = 2, port_name = pn, port_link_id = None,
                      port_description = None\<rparr>]\<rparr>,
      \<lparr>node_id = 2, node_name = ''R2'', node_type = ''Router'',
       node_ports = [\<lparr>port_id = 3, port_name = pn, port_link_id = None,
                      port_description = None\<rparr>]\<rparr>]"






text \<open>
  An instance of the parameter for the class \<^verbatim>\<open>LegacyTopology\<close>, to run
  \<^verbatim>\<open>process_topology\<close> on a concrete input: a new topology is empty, and each of the two
  methods records its call, the item's name with the instance it was called for, in the
  output it stands for. So the outputs show which items were classified, and how.
\<close>

definition recording_topology_class :: "unit topology_class" where
  "recording_topology_class =
     \<lparr>LegacyTopology = (\<lambda>sections old_top. Inr \<lparr>devices = [], conf = [], hv_id = 0\<rparr>),
      add_conf_item = (\<lambda>instance item topo.
         Inr (topo\<lparr>conf := conf topo @ [(item, VStr instance)]\<rparr>)),
      add_physical_item = (\<lambda>instance item topo.
         Inr (topo\<lparr>devices := devices topo @ [(item, VStr instance)]\<rparr>))\<rparr>"

section \<open>Theorems\<close>

subsection \<open>The keys compared by the deduplication\<close>

lemma digit_char_in: "d < 10 \<Longrightarrow> digit_char d \<in> set ''0123456789''"
proof -
  assume "d < 10"
  then have "d \<in> set [0..<10]" by simp
  moreover have "\<forall>d\<in>set [0..<10]. digit_char d \<in> set ''0123456789''"
    by (simp add: upt_rec digit_char_def)
  ultimately show ?thesis by blast
qed

lemma digit_char_inj: "d < 10 \<Longrightarrow> e < 10 \<Longrightarrow> digit_char d = digit_char e \<Longrightarrow> d = e"
proof -
  assume "d < 10" "e < 10" and eq: "digit_char d = digit_char e"
  then have "d \<in> set [0..<10]" "e \<in> set [0..<10]" by simp_all
  moreover have "\<forall>d\<in>set [0..<10]. \<forall>e\<in>set [0..<10]. digit_char d = digit_char e \<longrightarrow> d = e"
    by (simp add: upt_rec digit_char_def)
  ultimately show ?thesis using eq by blast
qed

lemma str_nat_digits: "set (str_nat n) \<subseteq> set ''0123456789''"
proof (induction n rule: str_nat.induct)
  case (1 n)
  show ?case
  proof (cases "n < 10")
    case True
    then show ?thesis using digit_char_in[of n] by (subst str_nat.simps) simp
  next
    case False
    have "n mod 10 < 10" by simp
    from digit_char_in[OF this] 1[OF False] False show ?thesis
      by (subst str_nat.simps) simp
  qed
qed

lemma str_nat_length: "length (str_nat n) = 1 \<longleftrightarrow> n < 10"
proof (cases "n < 10")
  case True
  then show ?thesis by (subst str_nat.simps) simp
next
  case False
  have "str_nat (n div 10) \<noteq> []" by (subst str_nat.simps) simp
  with False show ?thesis by (subst str_nat.simps) simp
qed

lemma str_nat_inj: "str_nat m = str_nat n \<Longrightarrow> m = n"
proof (induction m arbitrary: n rule: str_nat.induct)
  case (1 m)
  show ?case
  proof (cases "m < 10")
    case True
    with "1.prems" have "n < 10" using str_nat_length[of m] str_nat_length[of n] by simp
    with True "1.prems" show ?thesis
      using digit_char_inj[of m n] by (simp add: str_nat.simps[of m] str_nat.simps[of n])
  next
    case False
    with "1.prems" have n: "\<not> n < 10" using str_nat_length[of m] str_nat_length[of n] by simp
    with False "1.prems" have e: "str_nat (m div 10) = str_nat (n div 10)"
      "digit_char (m mod 10) = digit_char (n mod 10)"
      by (simp_all add: str_nat.simps[of m] str_nat.simps[of n])
    from "1.IH"[OF False e(1)] have "m div 10 = n div 10" .
    moreover from e(2) have "m mod 10 = n mod 10" by (intro digit_char_inj) simp_all
    ultimately show ?thesis by (metis div_mult_mod_eq)
  qed
qed

lemma str_nat_nonempty: "str_nat n \<noteq> []"
  by (subst str_nat.simps) simp

lemma str_nat_no_minus: "CHR ''-'' \<notin> set (str_nat n)"
proof -
  have "CHR ''-'' \<notin> set ''0123456789''" by simp
  with str_nat_digits[of n] show ?thesis by blast
qed

lemma str_nat_no_colon: "CHR '':'' \<notin> set (str_nat n)"
proof -
  have "CHR '':'' \<notin> set ''0123456789''" by simp
  with str_nat_digits[of n] show ?thesis by blast
qed

lemma str_nat_no_N: "CHR ''N'' \<notin> set (str_nat n)"
proof -
  have "CHR ''N'' \<notin> set ''0123456789''" by simp
  with str_nat_digits[of n] show ?thesis by blast
qed

lemma str_nat_hd: "str_nat n \<noteq> CHR ''-'' # s"
proof
  assume "str_nat n = CHR ''-'' # s"
  then have "CHR ''-'' \<in> set (str_nat n)" by simp
  with str_nat_no_minus show False by blast
qed

lemma str_int_inj: "str_int i = str_int j \<Longrightarrow> i = j"
proof -
  assume a: "str_int i = str_int j"
  show ?thesis
  proof (cases "i < 0")
    case True
    show ?thesis
    proof (cases "j < 0")
      case T2: True
      with True a have "str_nat (nat (- i)) = str_nat (nat (- j))" by (simp add: str_int_def)
      from str_nat_inj[OF this] True T2 show ?thesis by simp
    next
      case False
      with True a have "str_nat (nat j) = CHR ''-'' # str_nat (nat (- i))" by (simp add: str_int_def)
      with str_nat_hd show ?thesis by blast
    qed
  next
    case False
    show ?thesis
    proof (cases "j < 0")
      case True
      with False a have "str_nat (nat i) = CHR ''-'' # str_nat (nat (- j))" by (simp add: str_int_def)
      with str_nat_hd show ?thesis by blast
    next
      case F2: False
      with False a have "str_nat (nat i) = str_nat (nat j)" by (simp add: str_int_def)
      from str_nat_inj[OF this] False F2 show ?thesis by simp
    qed
  qed
qed

lemma str_int_no_colon: "CHR '':'' \<notin> set (str_int i)"
  using str_nat_no_colon by (simp add: str_int_def)

lemma str_int_not_None: "str_int i \<noteq> ''None''"
proof
  assume "str_int i = ''None''"
  then have "CHR ''N'' \<in> set (str_int i)" by simp
  then show False using str_nat_no_N by (simp add: str_int_def split: if_splits)
qed

lemma str_opt_int_no_colon: "CHR '':'' \<notin> set (str_opt_int x)"
  using str_int_no_colon by (cases x) (simp_all add: str_opt_int_def)

lemma str_opt_int_eq: "str_int i = str_opt_int x \<longleftrightarrow> x = Some i"
proof (cases x)
  case None
  then show ?thesis using str_int_not_None[of i] by (simp add: str_opt_int_def)
next
  case (Some j)
  then show ?thesis using str_int_inj[of i j] by (auto simp: str_opt_int_def)
qed

lemma colon_split:
  "CHR '':'' \<notin> set a \<Longrightarrow> CHR '':'' \<notin> set c \<Longrightarrow> a @ '':'' @ b = c @ '':'' @ d \<longleftrightarrow> a = c \<and> b = d"
proof (induction a arbitrary: c)
  case Nil
  then show ?case by (cases c) auto
next
  case (Cons x a)
  then show ?case by (cases c) auto
qed

lemma t_link_eq_d_link:
  "t_link_of l = d_link_of l2 \<longleftrightarrow>
     destination_node_id l2 = Some (source_node_id l) \<and>
     destination_port_id l2 = Some (source_port_id l)"
  unfolding t_link_of_def d_link_of_def
  using colon_split[OF str_int_no_colon[of "source_node_id l"]
                       str_opt_int_no_colon[of "destination_node_id l2"]]
  by (simp add: str_opt_int_eq)

subsection \<open>Back-annotation\<close>

lemma annotate_port_frame:
  "annotate_port pid l desc ps = Inr ps' \<Longrightarrow>
   list_all2 (\<lambda>p p'. p' = p \<or>
       (Some (port_id p) = pid \<and> link_id l \<noteq> None \<and>
        p' = p\<lparr>port_link_id := link_id l, port_description := Some desc\<rparr>)) ps ps'"
proof (induction ps arbitrary: ps')
  case Nil
  then show ?case by simp
next
  case (Cons p ps)
  show ?case
  proof (cases "Some (port_id p) = pid")
    case True
    with Cons.prems show ?thesis
      by (auto split: option.splits simp: list_all2_refl)
  next
    case False
    with Cons.prems obtain qs where q: "annotate_port pid l desc ps = Inr qs" "ps' = p # qs"
      by (auto split: sum.splits)
    with Cons.IH[OF q(1)] show ?thesis by simp
  qed
qed

lemma add_conn_loop_frame:
  "add_conn_loop l sd dd ns = Inr ns' \<Longrightarrow>
   list_all2 (\<lambda>n n'. n' = n\<lparr>node_ports := node_ports n'\<rparr> \<and>
       list_all2 (\<lambda>p p'. p' = p \<or> annotated_by l n p p') (node_ports n) (node_ports n')) ns ns'"
proof (induction ns arbitrary: ns')
  case Nil
  then show ?case by simp
next
  case (Cons n ns)
  let ?r = "if node_id n = source_node_id l
            then annotate_port (Some (source_port_id l)) l sd (node_ports n)
            else if Some (node_id n) = destination_node_id l
            then annotate_port (destination_port_id l) l dd (node_ports n)
            else Inr (node_ports n)"
  from Cons.prems obtain ps qs where r: "?r = Inr ps"
    and q: "add_conn_loop l sd dd ns = Inr qs" and e: "ns' = n\<lparr>node_ports := ps\<rparr> # qs"
    by (auto split: sum.splits simp del: annotate_port.simps)
  have "list_all2 (\<lambda>p p'. p' = p \<or> annotated_by l n p p') (node_ports n) ps"
  proof (cases "node_id n = source_node_id l")
    case True
    with r have "annotate_port (Some (source_port_id l)) l sd (node_ports n) = Inr ps" by simp
    from annotate_port_frame[OF this] show ?thesis
      by (rule list_all2_mono) (auto simp: annotated_by_def True)
  next
    case F1: False
    show ?thesis
    proof (cases "Some (node_id n) = destination_node_id l")
      case True
      with r F1 have "annotate_port (destination_port_id l) l dd (node_ports n) = Inr ps" by simp
      from annotate_port_frame[OF this] show ?thesis
        by (rule list_all2_mono) (auto simp: annotated_by_def True F1)
    next
      case False
      with r F1 show ?thesis by (simp add: list_all2_refl)
    qed
  qed
  with Cons.IH[OF q] e show ?case by simp
qed

subsection \<open>The deduplication loop\<close>

lemma find_dest_Some:
  "find_dest t links = Some link2 \<Longrightarrow> link2 \<in> set links \<and> t = d_link_of link2"
  by (induction links) (auto split: if_splits)

lemma remove1_index_of:
  "x \<in> set xs \<Longrightarrow> remove1 x xs = take (index_of x xs) xs @ drop (Suc (index_of x xs)) xs"
  by (induction xs) auto

lemma index_of_less: "x \<in> set xs \<Longrightarrow> index_of x xs < length xs"
  by (induction xs) auto

lemma remove1_nth_before:
  assumes "x \<in> set xs" "index_of x xs < i" "i < length xs"
  shows "remove1 x xs ! (i - 1) = xs ! i"
proof -
  let ?k = "index_of x xs"
  have "remove1 x xs ! (i - 1) = (take ?k xs @ drop (Suc ?k) xs) ! (i - 1)"
    using remove1_index_of[OF assms(1)] by simp
  also have "\<dots> = drop (Suc ?k) xs ! (i - 1 - ?k)"
  proof -
    have "\<not> i - 1 < ?k" "?k < length xs" using assms by arith+
    then show ?thesis by (simp add: nth_append)
  qed
  also have "\<dots> = xs ! i"
  proof -
    have "Suc ?k + (i - 1 - ?k) = i" "Suc ?k \<le> length xs" using assms by arith+
    then show ?thesis by (metis nth_drop)
  qed
  finally show ?thesis .
qed

lemma remove1_nth_after:
  assumes "x \<in> set xs" "i < index_of x xs"
  shows "remove1 x xs ! i = xs ! i"
proof -
  let ?k = "index_of x xs"
  have "?k < length xs" using assms(1) by (rule index_of_less)
  then show ?thesis using remove1_index_of[OF assms(1)] assms(2) by (simp add: nth_append)
qed

text \<open>What one round does to the list, by position of the removed element.\<close>

lemma dedup_step_cases:
  assumes "i < length links"
  shows "snd (dedup_step i lid links) = (links ! i)\<lparr>link_id := Some lid\<rparr> \<and>
    ((find_dest (t_link_of (links ! i)) links = None \<and>
        fst (dedup_step i lid links) = links[i := (links ! i)\<lparr>link_id := Some lid\<rparr>]) \<or>
     (\<exists>link2 p. find_dest (t_link_of (links ! i)) links = Some link2 \<and>
        p < length (remove1 link2 links) \<and> remove1 link2 links ! p = links ! i \<and>
        fst (dedup_step i lid links) = (remove1 link2 links)[p := (links ! i)\<lparr>link_id := Some lid\<rparr>]) \<or>
     (\<exists>link2. find_dest (t_link_of (links ! i)) links = Some link2 \<and>
        fst (dedup_step i lid links) = remove1 link2 links))"
proof (cases "find_dest (t_link_of (links ! i)) links")
  case None
  then show ?thesis by (simp add: dedup_step_def Let_def)
next
  case (Some link2)
  then have m: "link2 \<in> set links" using find_dest_Some by blast
  let ?k = "index_of link2 links"
  have len: "length (remove1 link2 links) = length links - 1"
    using m by (simp add: length_remove1)
  consider "?k < i" | "?k = i" | "i < ?k" by linarith
  then show ?thesis
  proof cases
    case 1
    then have "remove1 link2 links ! (i - 1) = links ! i"
      using remove1_nth_before[OF m _ assms] by simp
    moreover have "i - 1 < length (remove1 link2 links)" using len assms 1 by simp
    ultimately show ?thesis using Some 1
      by (simp add: dedup_step_def Let_def) blast
  next
    case 2
    then show ?thesis using Some by (simp add: dedup_step_def Let_def)
  next
    case 3
    then have "remove1 link2 links ! i = links ! i"
      using remove1_nth_after[OF m] by simp
    moreover have "i < length (remove1 link2 links)"
      using len 3 index_of_less[OF m] by simp
    ultimately show ?thesis using Some 3
      by (simp add: dedup_step_def Let_def) blast
  qed
qed

lemma annotate_port_total:
  "link_id l = Some i \<Longrightarrow> \<exists>ps'. annotate_port pid l desc ps = Inr ps'"
  by (induction ps) auto

lemma add_conn_loop_total:
  "link_id l = Some i \<Longrightarrow> \<exists>ns'. add_conn_loop l sd dd ns = Inr ns'"
proof (induction ns)
  case Nil
  then show ?case by simp
next
  case (Cons n ns)
  from Cons obtain ns' where 1: "add_conn_loop l sd dd ns = Inr ns'" by blast
  from Cons.prems obtain ps1 where 2:
    "annotate_port (Some (source_port_id l)) l sd (node_ports n) = Inr ps1"
    using annotate_port_total by blast
  from Cons.prems obtain ps2 where 3:
    "annotate_port (destination_port_id l) l dd (node_ports n) = Inr ps2"
    using annotate_port_total by blast
  show ?case using 1 2 3 by simp
qed

lemma add_node_connections_total:
  "link_id l = Some i \<Longrightarrow> \<exists>nodes'. add_node_connections l nodes = Inr nodes'"
  unfolding add_node_connections_def by (rule add_conn_loop_total)

lemma dedup_loop_total: "\<exists>r. dedup_loop i lid links nodes = Inr r"
proof (induction i lid links nodes rule: dedup_loop.induct)
  case (1 i lid links nodes)
  show ?case
  proof (cases "i < length links")
    case False
    then show ?thesis by (simp add: dedup_loop.simps)
  next
    case True
    obtain links' l' where s: "dedup_step i lid links = (links', l')" by (cases "dedup_step i lid links")
    have "l' = (links ! i)\<lparr>link_id := Some lid\<rparr>"
      using dedup_step_cases[OF True, of lid] s by simp
    then have "link_id l' = Some lid" by simp
    then obtain nodes' where a: "add_node_connections l' nodes = Inr nodes'"
      using add_node_connections_total by blast
    from "1.IH"[OF True s[symmetric] a] obtain r where
      "dedup_loop (i + 1) (lid + 1) links' nodes' = Inr r" by blast
    then show ?thesis using True s a by (subst dedup_loop.simps) simp
  qed
qed

lemma unresolved_from_id [simp]:
  "unresolved_from sn sp (l\<lparr>link_id := x\<rparr>) = unresolved_from sn sp l"
  by (simp add: unresolved_from_def)

lemma unresolved_update:
  assumes "\<exists>l\<in>set xs. unresolved_from sn sp l" "p < length xs"
  shows "\<exists>l\<in>set (xs[p := (xs ! p)\<lparr>link_id := x\<rparr>]). unresolved_from sn sp l"
proof -
  from assms(1) obtain j where j: "j < length xs" "unresolved_from sn sp (xs ! j)"
    by (auto simp: in_set_conv_nth)
  have "unresolved_from sn sp (xs[p := (xs ! p)\<lparr>link_id := x\<rparr>] ! j)"
    using j assms(2) by (cases "j = p") simp_all
  moreover have "j < length (xs[p := (xs ! p)\<lparr>link_id := x\<rparr>])" using j by simp
  ultimately show ?thesis by (metis nth_mem)
qed

lemma unresolved_remove1:
  assumes "\<exists>l\<in>set xs. unresolved_from sn sp l" "t = d_link_of link2" "t = t_link_of l0"
  shows "\<exists>l\<in>set (remove1 link2 xs). unresolved_from sn sp l"
proof -
  from assms(1) obtain l where l: "l \<in> set xs" "unresolved_from sn sp l" by blast
  have "destination_node_id link2 \<noteq> None"
    using assms(2,3) t_link_eq_d_link[of l0 link2] by simp
  with l(2) have "l \<noteq> link2" by (auto simp: unresolved_from_def)
  with l show ?thesis by (auto simp: in_set_remove1)
qed

lemma dedup_step_unresolved:
  assumes "i < length links" "\<exists>l\<in>set links. unresolved_from sn sp l"
  shows "\<exists>l\<in>set (fst (dedup_step i lid links)). unresolved_from sn sp l"
proof -
  from dedup_step_cases[OF assms(1), of lid]
  consider
    (a) "fst (dedup_step i lid links) = links[i := (links ! i)\<lparr>link_id := Some lid\<rparr>]"
  | (b) link2 p where "find_dest (t_link_of (links ! i)) links = Some link2"
        "p < length (remove1 link2 links)" "remove1 link2 links ! p = links ! i"
        "fst (dedup_step i lid links) = (remove1 link2 links)[p := (links ! i)\<lparr>link_id := Some lid\<rparr>]"
  | (c) link2 where "find_dest (t_link_of (links ! i)) links = Some link2"
        "fst (dedup_step i lid links) = remove1 link2 links"
    by blast
  then show ?thesis
  proof cases
    case a
    then show ?thesis using unresolved_update[OF assms(2,1)] by simp
  next
    case b
    from find_dest_Some[OF b(1)] have "t_link_of (links ! i) = d_link_of link2" by simp
    from unresolved_remove1[OF assms(2) this refl]
    have "\<exists>l\<in>set (remove1 link2 links). unresolved_from sn sp l" .
    from unresolved_update[OF this b(2), of "Some lid"] show ?thesis using b(3,4) by simp
  next
    case c
    from find_dest_Some[OF c(1)] have "t_link_of (links ! i) = d_link_of link2" by simp
    from unresolved_remove1[OF assms(2) this refl] show ?thesis using c(2) by simp
  qed
qed

lemma dedup_loop_unresolved:
  "dedup_loop i lid links nodes = Inr (links', nodes') \<Longrightarrow>
   \<exists>l\<in>set links. unresolved_from sn sp l \<Longrightarrow>
   \<exists>l\<in>set links'. unresolved_from sn sp l"
proof (induction i lid links nodes rule: dedup_loop.induct)
  case (1 i lid links nodes)
  show ?case
  proof (cases "i < length links")
    case False
    with "1.prems" show ?thesis by (simp add: dedup_loop.simps)
  next
    case True
    obtain ls l' where s: "dedup_step i lid links = (ls, l')" by (cases "dedup_step i lid links")
    from "1.prems"(1) True s obtain ns where a: "add_node_connections l' nodes = Inr ns"
      and r: "dedup_loop (i + 1) (lid + 1) ls ns = Inr (links', nodes')"
      by (subst (asm) dedup_loop.simps) (auto split: sum.splits)
    have "\<exists>l\<in>set ls. unresolved_from sn sp l"
      using dedup_step_unresolved[OF True "1.prems"(2), of lid] s by simp
    from "1.IH"[OF True s[symmetric] a r this] show ?thesis .
  qed
qed

subsection \<open>Evaluation and resolution lemmas\<close>

lemma dedup_step_simp:
  "dedup_step i lid links =
     (case find_dest (t_link_of (links ! i)) links of
        None \<Rightarrow> (links[i := (links ! i)\<lparr>link_id := Some lid\<rparr>], (links ! i)\<lparr>link_id := Some lid\<rparr>)
      | Some link2 \<Rightarrow>
          if index_of link2 links < i
          then ((remove1 link2 links)[i - 1 := (links ! i)\<lparr>link_id := Some lid\<rparr>], (links ! i)\<lparr>link_id := Some lid\<rparr>)
          else if index_of link2 links = i then (remove1 link2 links, (links ! i)\<lparr>link_id := Some lid\<rparr>)
          else ((remove1 link2 links)[i := (links ! i)\<lparr>link_id := Some lid\<rparr>], (links ! i)\<lparr>link_id := Some lid\<rparr>))"
  by (simp add: dedup_step_def Let_def split: option.splits)

lemma convert_named_no_node:
  "\<forall>n\<in>set nodes. node_name n \<noteq> d \<Longrightarrow> convert_named d dp nodes = (None, None, None)"
  by (induction nodes) auto

lemma resolve_link_unmatched:
  assumes "expand_port_name RE PT (dest_port c) = Inr dp" "dest_dev c \<noteq> ''NIO''"
    "\<forall>n\<in>set nodes. node_name n \<noteq> dest_dev c"
  shows "\<exists>l. resolve_link RE PT nodes c = Inr l \<and>
             unresolved_from (cand_source_node_id c) (cand_source_port_id c) l"
  using assms convert_named_no_node[OF assms(3), of dp]
  by (simp add: resolve_link_def convert_destination_to_id_def unresolved_from_def)

lemma resolve_link_total:
  "expand_port_name RE PT (dest_port c) = Inr dp \<Longrightarrow> \<exists>l. resolve_link RE PT nodes c = Inr l"
  by (simp add: resolve_link_def split: prod.splits)

lemma resolve_links_total:
  "\<forall>c\<in>set cs. \<exists>dp. expand_port_name RE PT (dest_port c) = Inr dp \<Longrightarrow>
   \<exists>ls. resolve_links RE PT nodes cs acc = Inr ls"
proof (induction cs arbitrary: acc)
  case Nil
  then show ?case by simp
next
  case (Cons c cs)
  then obtain l where "resolve_link RE PT nodes c = Inr l"
    using resolve_link_total[of RE PT c _ nodes] by auto
  moreover from Cons obtain ls where "resolve_links RE PT nodes cs (acc @ [l]) = Inr ls"
    by auto
  ultimately show ?case by simp
qed

lemma resolve_links_contains:
  "resolve_links RE PT nodes cs acc = Inr ls \<Longrightarrow>
   set acc \<subseteq> set ls \<and> (\<forall>c\<in>set cs. \<forall>l. resolve_link RE PT nodes c = Inr l \<longrightarrow> l \<in> set ls)"
proof (induction cs arbitrary: acc)
  case Nil
  then show ?case by simp
next
  case (Cons c cs)
  from Cons.prems obtain l where l: "resolve_link RE PT nodes c = Inr l"
    and r: "resolve_links RE PT nodes cs (acc @ [l]) = Inr ls"
    by (auto split: sum.splits)
  from Cons.IH[OF r] l show ?case by auto
qed

lemma generate_links_stale_entry:
  assumes "expand_port_name RE PT ''f0/0'' = Inr pn"
  shows "generate_links RE PT stale_entry_cands (stale_entry_nodes pn)
   = Inr ([\<lparr>description = ''Link from R1 port f0/0 to R2 port '' @ pn,
            destination_node_id = Some 2, destination_port_id = Some 3,
            source_port_id = 2, source_node_id = 1, link_id = Some 2\<rparr>,
           \<lparr>description = ''Link from R2 port f0/0 to R1 port '' @ pn,
            destination_node_id = Some 1, destination_port_id = Some 2,
            source_port_id = 3, source_node_id = 2, link_id = None\<rparr>],
          [\<lparr>node_id = 0, node_name = ''R0'', node_type = ''Router'',
            node_ports = [\<lparr>port_id = 1, port_name = pn, port_link_id = Some 1,
                           port_description = Some (''connected to R1 on port '' @ pn)\<rparr>]\<rparr>,
           \<lparr>node_id = 1, node_name = ''R1'', node_type = ''Router'',
            node_ports = [\<lparr>port_id = 2, port_name = pn, port_link_id = Some 2,
                           port_description = Some (''connected to R2 on port '' @ pn)\<rparr>]\<rparr>,
           \<lparr>node_id = 2, node_name = ''R2'', node_type = ''Router'',
            node_ports = [\<lparr>port_id = 3, port_name = pn, port_link_id = Some 2,
                           port_description = Some (''connected to R1 on port '' @ pn)\<rparr>]\<rparr>])"
  using assms
  by (simp add: stale_entry_cands_def stale_entry_nodes_def
        generate_links_def resolve_link_def
        convert_destination_to_id_def str_opt_string_def
        dedup_loop.simps dedup_step_simp t_link_eq_d_link
        add_node_connections_def src_desc_of_def dest_desc_of_def get_port_name_from_id_def)

lemma expand_port_name_fast_ethernet:
  "expand_port_name (\<lambda>s. s = ''f0/0'') [''F'' \<mapsto> ''FastEthernet''] ''f0/0''
     = Inr ''FastEthernet0/0''"
  by (simp add: expand_port_name_def upper_def replace_char_def)

subsection \<open>Host instances\<close>

lemma str_index_takeWhile:
  "str_index c s = Some n \<Longrightarrow> take n s = takeWhile (\<lambda>x. x \<noteq> c) s"
  by (induction s arbitrary: n) (auto split: if_splits)

lemma str_index_member: "c \<in> set s \<Longrightarrow> \<exists>n. str_index c s = Some n"
  by (induction s) auto

lemma get_instances_loop_filter:
  "get_instances_loop ip items acc =
     Inr (acc @ filter (\<lambda>k. CHR '':'' \<in> set k \<and> ip (takeWhile (\<lambda>x. x \<noteq> CHR '':'') k)) items)"
proof (induction items arbitrary: acc)
  case Nil
  then show ?case by simp
next
  case (Cons item items)
  show ?case
  proof (cases "CHR '':'' \<in> set item")
    case True
    then obtain n where n: "str_index CHR '':'' item = Some n"
      using str_index_member by blast
    from str_index_takeWhile[OF n] n True Cons show ?thesis by (simp add: Let_def)
  next
    case False
    with Cons show ?thesis by simp
  qed
qed

subsection \<open>Threading errors\<close>

lemma bindE_Inr [simp]: "bindE (Inr x) f = f x"
  by (simp add: bindE_def)

lemma bindE_Inl [simp]: "bindE (Inl e) f = Inl e"
  by (simp add: bindE_def)

subsection \<open>The grouper\<close>

lemma do_calls_append: "do_calls T (xs @ ys) topo = bindE (do_calls T xs topo) (do_calls T ys)"
proof (induction xs arbitrary: topo)
  case Nil
  then show ?case by simp
next
  case (Cons c xs)
  then show ?case by (cases "do_call T c topo") simp_all
qed

lemma process_items_calls:
  "set items \<subseteq> fst ` set sec \<Longrightarrow>
   process_items T MT instance sec items topo =
     do_calls T (map (\<lambda>item. if item \<in> set MT then Conf instance item else Phys instance item)
                  (filter (dict_valued sec) items)) topo"
proof (induction items arbitrary: topo)
  case Nil
  then show ?case by simp
next
  case (Cons item items)
  from Cons.prems have "item \<in> fst ` set sec" by simp
  then obtain v where v: "map_of sec item = Some v"
    by (metis map_of_eq_None_iff not_Some_eq)
  from Cons.prems have sub: "set items \<subseteq> fst ` set sec" by simp
  note IH = Cons.IH[OF sub]
  show ?case
  proof (cases v)
    case (VDict d)
    show ?thesis
    proof (cases "item \<in> set MT")
      case True
      with v VDict IH show ?thesis
        by (cases "add_conf_item T instance item topo") (simp_all add: dict_valued_def)
    next
      case False
      with v VDict IH show ?thesis
        by (cases "add_physical_item T instance item topo") (simp_all add: dict_valued_def)
    qed
  next
    case (VInt i)
    with v IH show ?thesis by (simp add: dict_valued_def)
  next
    case (VStr s)
    with v IH show ?thesis by (simp add: dict_valued_def)
  qed
qed

lemma process_instances_calls:
  "\<forall>i\<in>set insts. \<exists>sec. map_of old_top i = Some (VDict sec) \<Longrightarrow>
   process_instances T MT old_top insts topo =
     do_calls T (concat (map (instance_calls MT old_top) insts)) topo"
proof (induction insts arbitrary: topo)
  case Nil
  then show ?case by simp
next
  case (Cons i insts)
  from Cons.prems obtain sec where sec: "map_of old_top i = Some (VDict sec)" by auto
  from Cons.prems have rest: "\<forall>i\<in>set insts. \<exists>sec. map_of old_top i = Some (VDict sec)" by simp
  have "set (sort (map fst sec)) \<subseteq> fst ` set sec" by simp
  from process_items_calls[OF this]
  have items: "process_items T MT i sec (sort (map fst sec)) topo =
                 do_calls T (item_calls MT i sec) topo"
    by (simp add: item_calls_def)
  show ?case
  proof (cases "do_calls T (item_calls MT i sec) topo")
    case (Inl e)
    with sec items show ?thesis by (simp add: instance_calls_def do_calls_append)
  next
    case (Inr t1)
    with sec items Cons.IH[OF rest] show ?thesis
      by (simp add: instance_calls_def do_calls_append)
  qed
qed

lemma topology_calls_member:
  assumes "i \<in> set sections" "map_of old_top i = Some (VDict sec)"
    "map_of sec item = Some (VDict d)"
  shows "(if item \<in> set MT then Conf i item else Phys i item)
           \<in> set (topology_calls MT sections old_top)"
proof -
  have "item \<in> fst ` set sec" using assms(3) by (metis fst_conv image_eqI map_of_SomeD)
  then have "item \<in> set (filter (dict_valued sec) (sort (map fst sec)))"
    using assms(3) by (simp add: dict_valued_def)
  then have "(\<lambda>item. if item \<in> set MT then Conf i item else Phys i item) item
               \<in> (\<lambda>item. if item \<in> set MT then Conf i item else Phys i item)
                    ` set (filter (dict_valued sec) (sort (map fst sec)))"
    by (rule imageI)
  then have "(if item \<in> set MT then Conf i item else Phys i item) \<in> set (item_calls MT i sec)"
    by (simp only: item_calls_def set_map)
  then have "(if item \<in> set MT then Conf i item else Phys i item)
               \<in> set (instance_calls MT old_top i)"
    using assms(2) by (simp add: instance_calls_def)
  moreover have "i \<in> set (sort sections)" using assms(1) by simp
  ultimately show ?thesis unfolding topology_calls_def by auto
qed

lemma topology_calls_only_dicts:
  assumes "c \<in> set (topology_calls MT sections old_top)" "c = Conf i item \<or> c = Phys i item"
  shows "i \<in> set sections \<and> (\<exists>sec. map_of old_top i = Some (VDict sec) \<and> dict_valued sec item) \<and>
         (c = Conf i item \<longleftrightarrow> item \<in> set MT)"
proof -
  from assms(1) obtain j where j: "j \<in> set sections" "c \<in> set (instance_calls MT old_top j)"
    unfolding topology_calls_def by auto
  have "\<exists>sec. map_of old_top j = Some (VDict sec) \<and> c \<in> set (item_calls MT j sec)"
  proof (cases "map_of old_top j")
    case None
    with j(2) show ?thesis by (simp add: instance_calls_def)
  next
    case (Some v)
    show ?thesis
    proof (cases v)
      case (VDict sec)
      with Some j(2) assms(2) show ?thesis by (auto simp: instance_calls_def)
    next
      case (VInt n)
      with Some j(2) show ?thesis by (simp add: instance_calls_def)
    next
      case (VStr s)
      with Some j(2) show ?thesis by (simp add: instance_calls_def)
    qed
  qed
  then obtain sec where sec: "map_of old_top j = Some (VDict sec)"
    "c \<in> set (item_calls MT j sec)" by blast
  from sec(2) obtain it where it: "dict_valued sec it"
    "c = (if it \<in> set MT then Conf j it else Phys j it)"
    by (auto simp: item_calls_def)
  from it(2) assms(2) have "j = i" "it = item" by (auto split: if_splits)
  with j(1) sec(1) it assms(2) show ?thesis by (auto split: if_splits)
qed

lemma do_calls_total:
  "\<forall>c topo. \<exists>topo'. do_call T c topo = Inr topo' \<Longrightarrow> \<exists>topo'. do_calls T cs topo = Inr topo'"
proof (induction cs arbitrary: topo)
  case Nil
  then show ?case by simp
next
  case (Cons c cs)
  from Cons.prems obtain t1 where "do_call T c topo = Inr t1" by blast
  moreover from Cons obtain t2 where "do_calls T cs t1 = Inr t2" by blast
  ultimately show ?case by simp
qed

lemma old_top_item_found:
  "topo_old_top topo = old_top \<Longrightarrow> map_of old_top instance = Some (VDict sec) \<Longrightarrow>
   map_of sec item = Some v \<Longrightarrow> old_top_item topo instance item = Inr v"
  by (simp add: old_top_item_def)

lemma spec_process_items_route:
  assumes "set items \<subseteq> fst ` set sec" "hv_id topo = int pos" "topo_old_top topo = old_top"
    "map_of old_top instance = Some (VDict sec)"
  shows "\<exists>topo'. process_items spec_topology_class MT instance sec items topo = Inr topo' \<and>
           hv_id topo' = int pos \<and> topo_old_top topo' = old_top \<and>
           (devices topo', conf topo') = foldl (route_item MT pos sec) (devices topo, conf topo) items"
  using assms(1,2,3)
proof (induction items arbitrary: topo)
  case Nil
  then show ?case by simp
next
  case (Cons item items)
  from Cons.prems(1) have "item \<in> fst ` set sec" by simp
  then obtain v where v: "map_of sec item = Some v"
    by (metis map_of_eq_None_iff not_Some_eq)
  from Cons.prems(1) have sub: "set items \<subseteq> fst ` set sec" by simp
  note found = old_top_item_found[OF Cons.prems(3) assms(4) v]
  show ?case
  proof (cases v)
    case (VDict d)
    show ?thesis
    proof (cases "item \<in> set MT")
      case True
      let ?t = "topo\<lparr>conf := AList.update item (VDict d) (conf topo)\<rparr>"
      have c: "add_conf_item spec_topology_class instance item topo = Inr ?t"
        using found VDict by (simp add: spec_topology_class_def spec_add_conf_item_def)
      have h: "hv_id ?t = int pos" "topo_old_top ?t = old_top" using Cons.prems(2,3) by simp_all
      from Cons.IH[OF sub h] v VDict True c show ?thesis
        by (simp add: route_item_def)
    next
      case False
      let ?old = "case map_of (devices topo) item of Some (VDict r) \<Rightarrow> r | _ \<Rightarrow> []"
      let ?t = "topo\<lparr>devices := AList.update item
                   (VDict (AList.update ''hv_id'' (VInt (hv_id topo)) (dict_update ?old d)))
                   (devices topo)\<rparr>"
      have c: "add_physical_item spec_topology_class instance item topo = Inr ?t"
        using found VDict
        by (simp add: spec_topology_class_def spec_add_physical_item_def Let_def)
      have h: "hv_id ?t = int pos" "topo_old_top ?t = old_top" using Cons.prems(2,3) by simp_all
      from Cons.IH[OF sub h] v VDict False c Cons.prems(2) show ?thesis
        by (simp add: route_item_def merge_device_def Let_def)
    qed
  next
    case (VInt i)
    from Cons.IH[OF sub Cons.prems(2,3)] v VInt show ?thesis by (simp add: route_item_def)
  next
    case (VStr s)
    from Cons.IH[OF sub Cons.prems(2,3)] v VStr show ?thesis by (simp add: route_item_def)
  qed
qed

lemma spec_process_instances_route:
  assumes "\<forall>i\<in>set insts. \<exists>sec. map_of old_top i = Some (VDict sec)" "hv_id topo = int k"
    "topo_old_top topo = old_top"
  shows "\<exists>topo'. process_instances spec_topology_class MT old_top insts topo = Inr topo' \<and>
           (devices topo', conf topo') =
             foldl (route_instance MT old_top) (devices topo, conf topo) (enumerate k insts)"
  using assms
proof (induction insts arbitrary: topo k)
  case Nil
  then show ?case by simp
next
  case (Cons i insts)
  from Cons.prems(1) obtain sec where sec: "map_of old_top i = Some (VDict sec)" by auto
  have "set (sort (map fst sec)) \<subseteq> fst ` set sec" by simp
  from spec_process_items_route[OF this Cons.prems(2,3) sec, of MT] obtain t1 where
    t1: "process_items spec_topology_class MT i sec (sort (map fst sec)) topo = Inr t1"
        "hv_id t1 = int k" "topo_old_top t1 = old_top"
        "(devices t1, conf t1) = foldl (route_item MT k sec) (devices topo, conf topo) (sort (map fst sec))"
    by blast
  let ?t2 = "t1\<lparr>hv_id := hv_id t1 + 1\<rparr>"
  have h: "hv_id ?t2 = int (Suc k)" "topo_old_top ?t2 = old_top" using t1(2,3) by simp_all
  from Cons.prems(1) have rest: "\<forall>i\<in>set insts. \<exists>sec. map_of old_top i = Some (VDict sec)" by simp
  from Cons.IH[OF rest h] obtain t3 where
    t3: "process_instances spec_topology_class MT old_top insts ?t2 = Inr t3"
        "(devices t3, conf t3) = foldl (route_instance MT old_top) (devices ?t2, conf ?t2) (enumerate (Suc k) insts)"
    by blast
  have ri: "route_instance MT old_top out (k, i) = foldl (route_item MT k sec) out (sort (map fst sec))"
    for out using sec by (simp add: route_instance_def)
  from t3 t1 sec show ?case by (simp add: ri)
qed

subsection \<open>Node building\<close>






























subsection \<open>The claims\<close>

text \<open>
  C1. The claim: the list returned by \<^verbatim>\<open>generate_links\<close> never holds two links that are
  the same undirected edge. The second loop removes from the list it iterates over, so
  a removal at an earlier index makes the iterator skip a link. With the three routers
  above, whatever the shorthand \<^verbatim>\<open>f0/0\<close> expands to, the round of \<^verbatim>\<open>R1\<close>'s link removes
  \<^verbatim>\<open>R0\<close>'s link (the first whose destination is \<^verbatim>\<open>R1\<close>'s port), the loop then ends,
  and the returned list holds \<^verbatim>\<open>R1\<close>'s link and its mirror image from \<^verbatim>\<open>R2\<close>.
\<close>

theorem generate_links_keeps_mirror_pair:
  assumes "expand_port_name RE PT ''f0/0'' = Inr pn"
  shows "(case generate_links RE PT stale_entry_cands (stale_entry_nodes pn) of
            Inl e \<Rightarrow> False
          | Inr (links, nodes') \<Rightarrow> length links = 2 \<and> same_edge (links ! 0) (links ! 1))"
  by (simp add: generate_links_stale_entry[OF assms] same_edge_def)

text \<open>An instance: the shorthand expanded through a table.\<close>

theorem generate_links_keeps_mirror_pair_witness:
  "expand_port_name (\<lambda>s. s = ''f0/0'') [''F'' \<mapsto> ''FastEthernet''] ''f0/0''
     = Inr ''FastEthernet0/0'' \<and>
   (case generate_links (\<lambda>s. s = ''f0/0'') [''F'' \<mapsto> ''FastEthernet'']
           stale_entry_cands (stale_entry_nodes ''FastEthernet0/0'') of
      Inl e \<Rightarrow> False
    | Inr (links, nodes') \<Rightarrow> length links = 2 \<and> same_edge (links ! 0) (links ! 1))"
  using generate_links_keeps_mirror_pair[OF expand_port_name_fast_ethernet] expand_port_name_fast_ethernet by simp

text \<open>
  C2. The claim: every returned link has an id, and the ids are 1, 2, 3, ... in the order
  of the list, with no id given to a removed link. On the same input the removed link of
  \<^verbatim>\<open>R0\<close> had received id 1, and the returned list holds a link with id 2 followed by a
  link with no id.
\<close>

theorem generate_links_ids_not_sequential:
  assumes "expand_port_name RE PT ''f0/0'' = Inr pn"
  shows "(case generate_links RE PT stale_entry_cands (stale_entry_nodes pn) of
            Inl e \<Rightarrow> False
          | Inr (links, nodes') \<Rightarrow> map link_id links = [Some 2, None])"
  by (simp add: generate_links_stale_entry[OF assms])

text \<open>An instance, with the same table.\<close>

theorem generate_links_ids_not_sequential_witness:
  "expand_port_name (\<lambda>s. s = ''f0/0'') [''F'' \<mapsto> ''FastEthernet''] ''f0/0''
     = Inr ''FastEthernet0/0'' \<and>
   (case generate_links (\<lambda>s. s = ''f0/0'') [''F'' \<mapsto> ''FastEthernet'']
           stale_entry_cands (stale_entry_nodes ''FastEthernet0/0'') of
      Inl e \<Rightarrow> False
    | Inr (links, nodes') \<Rightarrow> map link_id links = [Some 2, None])"
  using generate_links_ids_not_sequential[OF expand_port_name_fast_ethernet] expand_port_name_fast_ethernet by simp

text \<open>
  C3. The claim: with the sentinel \<^verbatim>\<open>'NIO'\<close>, \<^verbatim>\<open>convert_destination_to_id\<close> searches all
  Cloud nodes and returns the ids of a Cloud port with the given name whenever some Cloud
  node has one. The code stops at the first Cloud node: with two Cloud nodes, the first
  with the port \<^verbatim>\<open>eth0\<close> only and the second with the port \<^verbatim>\<open>eth1\<close>, the search for
  \<^verbatim>\<open>eth1\<close> returns null ids although the second Cloud node has that port.
\<close>

theorem convert_destination_to_id_first_cloud_only:
  "convert_destination_to_id ''NIO'' ''eth1''
     [\<lparr>node_id = 1, node_name = ''C1'', node_type = ''Cloud'',
       node_ports = [\<lparr>port_id = 1, port_name = ''eth0'',
                      port_link_id = None, port_description = None\<rparr>]\<rparr>,
      \<lparr>node_id = 2, node_name = ''C2'', node_type = ''Cloud'',
       node_ports = [\<lparr>port_id = 2, port_name = ''eth1'',
                      port_link_id = None, port_description = None\<rparr>]\<rparr>]
   = (None, None, None)"
  by (simp add: convert_destination_to_id_def)

text \<open>
  C4. A candidate whose destination device is a name (not the sentinel \<^verbatim>\<open>NIO\<close>) that no
  node has: \<^verbatim>\<open>generate_links\<close> raises nothing and the returned list holds a link from
  the candidate's source port whose destination node id and port id are both \<^verbatim>\<open>None\<close>.
  The lookups in the two tables that are not in the source are taken to succeed for the
  candidates.
\<close>

theorem generate_links_unmatched_destination:
  assumes "\<forall>c'\<in>set cands. \<exists>dp. expand_port_name RE PT (dest_port c') = Inr dp"
    and "c \<in> set cands" and "dest_dev c \<noteq> ''NIO''"
    and "\<forall>n\<in>set nodes. node_name n \<noteq> dest_dev c"
  shows "\<exists>links nodes'. generate_links RE PT cands nodes = Inr (links, nodes') \<and>
           (\<exists>l\<in>set links. unresolved_from (cand_source_node_id c) (cand_source_port_id c) l)"
proof -
  from resolve_links_total[OF assms(1)] obtain ls where
    ls: "resolve_links RE PT nodes cands [] = Inr ls" by blast
  from assms(1,2) obtain dp where "expand_port_name RE PT (dest_port c) = Inr dp" by blast
  from resolve_link_unmatched[OF this assms(3,4)] obtain l0 where
    l0: "resolve_link RE PT nodes c = Inr l0"
      "unresolved_from (cand_source_node_id c) (cand_source_port_id c) l0" by blast
  from resolve_links_contains[OF ls] assms(2) l0(1) have "l0 \<in> set ls" by blast
  with l0(2) have u: "\<exists>l\<in>set ls. unresolved_from (cand_source_node_id c) (cand_source_port_id c) l"
    by blast
  from dedup_loop_total[of 0 1 ls nodes] obtain links nodes' where
    d: "dedup_loop 0 1 ls nodes = Inr (links, nodes')" by force
  from dedup_loop_unresolved[OF d u] d ls show ?thesis
    by (simp add: generate_links_def)
qed

text \<open>An instance: one router, and a candidate that names a device \<^verbatim>\<open>R9\<close>.\<close>

theorem generate_links_unmatched_destination_witness:
  "expand_port_name (\<lambda>s. False) Map.empty ''f0/0'' = Inr ''f0/0'' \<and>
   ''R9'' \<noteq> ''NIO'' \<and> ''R1'' \<noteq> ''R9'' \<and>
   generate_links (\<lambda>s. False) Map.empty
     [\<lparr>cand_source_node_id = 1, cand_source_port_id = 1, cand_source_port_name = ''f0/0'',
       cand_source_dev = ''R1'', dest_dev = ''R9'', dest_port = ''f0/0''\<rparr>]
     [\<lparr>node_id = 1, node_name = ''R1'', node_type = ''Router'',
       node_ports = [\<lparr>port_id = 1, port_name = ''f0/0'', port_link_id = None,
                      port_description = None\<rparr>]\<rparr>]
   = Inr ([\<lparr>description = ''Link from R1 port f0/0 to None port f0/0'',
            destination_node_id = None, destination_port_id = None,
            source_port_id = 1, source_node_id = 1, link_id = Some 1\<rparr>],
          [\<lparr>node_id = 1, node_name = ''R1'', node_type = ''Router'',
            node_ports = [\<lparr>port_id = 1, port_name = ''f0/0'', port_link_id = Some 1,
                           port_description = Some ''connected to  on port ''\<rparr>]\<rparr>])"
  using generate_links_unmatched_destination
    [of "[\<lparr>cand_source_node_id = 1, cand_source_port_id = 1, cand_source_port_name = ''f0/0'',
           cand_source_dev = ''R1'', dest_dev = ''R9'', dest_port = ''f0/0''\<rparr>]"
        "\<lambda>s. False" Map.empty
        "\<lparr>cand_source_node_id = 1, cand_source_port_id = 1, cand_source_port_name = ''f0/0'',
           cand_source_dev = ''R1'', dest_dev = ''R9'', dest_port = ''f0/0''\<rparr>"
        "[\<lparr>node_id = 1, node_name = ''R1'', node_type = ''Router'',
       node_ports = [\<lparr>port_id = 1, port_name = ''f0/0'', port_link_id = None,
                      port_description = None\<rparr>]\<rparr>]"]
  by (simp add: generate_links_def resolve_link_def expand_port_name_def
        convert_destination_to_id_def str_opt_string_def
        dedup_loop.simps dedup_step_simp t_link_eq_d_link
        add_node_connections_def src_desc_of_def dest_desc_of_def get_port_name_from_id_def)

text \<open>
  C5, as amended. For a mapping of the validated shape (every listed section is a
  dictionary of the mapping) and any topology class: what \<^verbatim>\<open>process_topology\<close> does to
  the topology is the list of calls \<open>topology_calls\<close>, and it returns the topology's
  devices and configuration. Every item of a listed instance whose value is a dictionary
  is classified: the list holds its call, \<^verbatim>\<open>add_conf_item\<close> when the name is in the
  configuration-role table and \<^verbatim>\<open>add_physical_item\<close> otherwise. An item whose value is
  not a dictionary is skipped: the list holds calls for dictionary-valued items only,
  and nothing is raised for it, so \<^verbatim>\<open>process_topology\<close> returns whenever the constructor
  and the two methods do.
\<close>

theorem process_topology_classifies_dict_items:
  assumes "\<forall>i\<in>set sections. \<exists>sec. map_of old_top i = Some (VDict sec)"
  shows "process_topology T MT sections old_top =
           bindE (LegacyTopology T sections old_top) (\<lambda>topo.
           bindE (do_calls T (topology_calls MT sections old_top) topo) (\<lambda>topo'.
             Inr (devices topo', conf topo'))) \<and>
         (\<forall>i\<in>set sections. \<forall>sec item d.
            map_of old_top i = Some (VDict sec) \<and> map_of sec item = Some (VDict d) \<longrightarrow>
            (if item \<in> set MT then Conf i item else Phys i item)
              \<in> set (topology_calls MT sections old_top)) \<and>
         (\<forall>i item. Conf i item \<in> set (topology_calls MT sections old_top) \<or>
                   Phys i item \<in> set (topology_calls MT sections old_top) \<longrightarrow>
            (\<exists>sec. map_of old_top i = Some (VDict sec) \<and> dict_valued sec item)) \<and>
         ((\<exists>topo. LegacyTopology T sections old_top = Inr topo) \<and>
          (\<forall>c topo. \<exists>topo'. do_call T c topo = Inr topo') \<longrightarrow>
            (\<exists>out. process_topology T MT sections old_top = Inr out))"
proof (intro conjI ballI allI impI)
  have 1: "\<forall>i\<in>set (sort sections). \<exists>sec. map_of old_top i = Some (VDict sec)"
    using assms by simp
  show eq: "process_topology T MT sections old_top =
           bindE (LegacyTopology T sections old_top) (\<lambda>topo.
           bindE (do_calls T (topology_calls MT sections old_top) topo) (\<lambda>topo'.
             Inr (devices topo', conf topo')))"
    by (simp add: process_topology_def topology_calls_def process_instances_calls[OF 1])
  {
    assume "(\<exists>topo. LegacyTopology T sections old_top = Inr topo) \<and>
          (\<forall>c topo. \<exists>topo'. do_call T c topo = Inr topo')"
    then obtain t0 where t0: "LegacyTopology T sections old_top = Inr t0"
      and tot: "\<forall>c topo. \<exists>topo'. do_call T c topo = Inr topo'" by blast
    from do_calls_total[OF tot] obtain t1 where
      "do_calls T (topology_calls MT sections old_top) t0 = Inr t1" by blast
    with t0 eq show "\<exists>out. process_topology T MT sections old_top = Inr out" by simp
  }
next
  fix i sec item d
  assume "i \<in> set sections"
    and "map_of old_top i = Some (VDict sec) \<and> map_of sec item = Some (VDict d)"
  then show "(if item \<in> set MT then Conf i item else Phys i item)
              \<in> set (topology_calls MT sections old_top)"
    using topology_calls_member by blast
next
  fix i item
  assume "Conf i item \<in> set (topology_calls MT sections old_top) \<or>
          Phys i item \<in> set (topology_calls MT sections old_top)"
  then show "\<exists>sec. map_of old_top i = Some (VDict sec) \<and> dict_valued sec item"
    using topology_calls_only_dicts by blast
qed

text \<open>
  An instance: one section with a scalar, a router and a configuration item; two calls
  are made, none for the scalar.
\<close>

theorem process_topology_classifies_dict_items_witness:
  "map_of [(''127.0.0.1:7200'',
        VDict [(''workingdir'', VStr ''/tmp''),
               (''ROUTER R1'', VDict [(''model'', VStr ''7200'')]),
               (''7200'', VDict [(''image'', VStr ''c7200.bin'')])])] ''127.0.0.1:7200''
     = Some (VDict [(''workingdir'', VStr ''/tmp''),
               (''ROUTER R1'', VDict [(''model'', VStr ''7200'')]),
               (''7200'', VDict [(''image'', VStr ''c7200.bin'')])]) \<and>
   topology_calls [''7200''] [''127.0.0.1:7200'']
     [(''127.0.0.1:7200'',
        VDict [(''workingdir'', VStr ''/tmp''),
               (''ROUTER R1'', VDict [(''model'', VStr ''7200'')]),
               (''7200'', VDict [(''image'', VStr ''c7200.bin'')])])]
     = [Conf ''127.0.0.1:7200'' ''7200'', Phys ''127.0.0.1:7200'' ''ROUTER R1'', NextInstance] \<and>
   process_topology recording_topology_class [''7200''] [''127.0.0.1:7200'']
     [(''127.0.0.1:7200'',
        VDict [(''workingdir'', VStr ''/tmp''),
               (''ROUTER R1'', VDict [(''model'', VStr ''7200'')]),
               (''7200'', VDict [(''image'', VStr ''c7200.bin'')])])]
   = Inr ([(''ROUTER R1'', VStr ''127.0.0.1:7200'')], [(''7200'', VStr ''127.0.0.1:7200'')])"
  using process_topology_classifies_dict_items
    [where sections = "[''127.0.0.1:7200'']"
       and old_top = "[(''127.0.0.1:7200'',
        VDict [(''workingdir'', VStr ''/tmp''),
               (''ROUTER R1'', VDict [(''model'', VStr ''7200'')]),
               (''7200'', VDict [(''image'', VStr ''c7200.bin'')])])]"
       and MT = "[''7200'']" and T = recording_topology_class]
  by (simp add: topology_calls_def instance_calls_def item_calls_def dict_valued_def
        recording_topology_class_def)

text \<open>
  The claim as stated says that no item is dropped and that an item without
  sub-attributes is an error. The guard \<^verbatim>\<open>isinstance(..., dict)\<close> has no \<^verbatim>\<open>else\<close>: for
  the scalar item \<^verbatim>\<open>workingdir\<close> of an instance neither method is called, so it is in
  neither output, and nothing is raised.
\<close>

theorem process_topology_drops_scalar_item:
  "process_topology recording_topology_class [] [''127.0.0.1:7200'']
     [(''127.0.0.1:7200'', VDict [(''workingdir'', VStr ''/tmp'')])] = Inr ([], [])"
  by (simp add: process_topology_def recording_topology_class_def)




text \<open>
  C7. For a mapping of the validated shape, \<^verbatim>\<open>process_topology\<close> with the topology class
  of the specification returns what the specification's grouper computes: the instances
  in sorted order, the items of each in sorted order, a dictionary-valued item in the
  configuration-role table routed into the configuration output, every other
  dictionary-valued item merged into the device records with \<^verbatim>\<open>hv_id\<close> the position of
  its instance in the sorted instance list. The counter of the code, incremented once
  per instance, is that position.
\<close>

theorem process_topology_refines_grouper:
  assumes "\<forall>i\<in>set sections. \<exists>sec. map_of old_top i = Some (VDict sec)"
  shows "process_topology spec_topology_class MT sections old_top
           = Inr (grouper_spec MT sections old_top)"
proof -
  let ?t0 = "\<lparr>devices = [], conf = [], hv_id = 0, topo_old_top = old_top\<rparr>"
  have 0: "LegacyTopology spec_topology_class sections old_top = Inr ?t0"
    by (simp add: spec_topology_class_def spec_LegacyTopology_def)
  have 1: "\<forall>i\<in>set (sort sections). \<exists>sec. map_of old_top i = Some (VDict sec)"
    using assms by simp
  have 2: "hv_id ?t0 = int 0" "topo_old_top ?t0 = old_top" by simp_all
  from spec_process_instances_route[OF 1 2, of MT] 0 show ?thesis
    by (auto simp: process_topology_def grouper_spec_def)
qed

text \<open>
  An instance: two sections given in reverse order; the router of the first sorted
  section has \<^verbatim>\<open>hv_id\<close> 0 and the two routers of the second have \<^verbatim>\<open>hv_id\<close> 1.
\<close>

theorem process_topology_refines_grouper_witness:
  "map_of [(''a:1'', VDict [(''ROUTER R1'', VDict [(''x'', VStr ''1'')])]),
           (''b:1'', VDict [(''ROUTER R2'', VDict [(''x'', VStr ''2'')]),
                            (''ROUTER R0'', VDict [(''x'', VStr ''0'')])])] ''a:1''
     = Some (VDict [(''ROUTER R1'', VDict [(''x'', VStr ''1'')])]) \<and>
   map_of [(''a:1'', VDict [(''ROUTER R1'', VDict [(''x'', VStr ''1'')])]),
           (''b:1'', VDict [(''ROUTER R2'', VDict [(''x'', VStr ''2'')]),
                            (''ROUTER R0'', VDict [(''x'', VStr ''0'')])])] ''b:1''
     = Some (VDict [(''ROUTER R2'', VDict [(''x'', VStr ''2'')]),
                    (''ROUTER R0'', VDict [(''x'', VStr ''0'')])]) \<and>
   process_topology spec_topology_class [] [''b:1'', ''a:1'']
     [(''a:1'', VDict [(''ROUTER R1'', VDict [(''x'', VStr ''1'')])]),
      (''b:1'', VDict [(''ROUTER R2'', VDict [(''x'', VStr ''2'')]),
                       (''ROUTER R0'', VDict [(''x'', VStr ''0'')])])]
   = Inr ([(''ROUTER R1'', VDict [(''x'', VStr ''1''), (''hv_id'', VInt 0)]),
           (''ROUTER R0'', VDict [(''x'', VStr ''0''), (''hv_id'', VInt 1)]),
           (''ROUTER R2'', VDict [(''x'', VStr ''2''), (''hv_id'', VInt 1)])], []) \<and>
   grouper_spec [] [''b:1'', ''a:1'']
     [(''a:1'', VDict [(''ROUTER R1'', VDict [(''x'', VStr ''1'')])]),
      (''b:1'', VDict [(''ROUTER R2'', VDict [(''x'', VStr ''2'')]),
                       (''ROUTER R0'', VDict [(''x'', VStr ''0'')])])]
   = ([(''ROUTER R1'', VDict [(''x'', VStr ''1''), (''hv_id'', VInt 0)]),
       (''ROUTER R0'', VDict [(''x'', VStr ''0''), (''hv_id'', VInt 1)]),
       (''ROUTER R2'', VDict [(''x'', VStr ''2''), (''hv_id'', VInt 1)])], [])"
  using process_topology_refines_grouper
    [where sections = "[''b:1'', ''a:1'']"
       and old_top = "[(''a:1'', VDict [(''ROUTER R1'', VDict [(''x'', VStr ''1'')])]),
          (''b:1'', VDict [(''ROUTER R2'', VDict [(''x'', VStr ''2'')]),
                           (''ROUTER R0'', VDict [(''x'', VStr ''0'')])])]" and MT = "[]"]
  by (simp add: grouper_spec_def route_instance_def route_item_def merge_device_def
        dict_update_def enumerate_eq_zip upt_rec)



text \<open>
  C9. \<^verbatim>\<open>get_instances\<close> raises nothing and returns, in sorted order, exactly the keys
  that contain a colon and whose part before the first colon is a valid address.
\<close>

theorem get_instances_filter_sorted:
  "get_instances ip config =
     Inr (filter (\<lambda>k. CHR '':'' \<in> set k \<and> ip (takeWhile (\<lambda>x. x \<noteq> CHR '':'') k))
            (sort (map fst config))) \<and>
   sorted (filter (\<lambda>k. CHR '':'' \<in> set k \<and> ip (takeWhile (\<lambda>x. x \<noteq> CHR '':'') k))
            (sort (map fst config)))"
  by (simp add: get_instances_def get_instances_loop_filter sorted_filter[where f="\<lambda>x. x", simplified])

text \<open>
  C10, as amended. \<^verbatim>\<open>add_node_connections\<close> succeeds on a link that has its id, and it
  keeps the number and order of the nodes and of their ports; every key of a node but
  \<^verbatim>\<open>ports\<close> is unchanged; a port is either unchanged, or it is an endpoint of the link
  (the source port on a node with the source id, the destination port on a node with the
  destination id and another id than the source's) and only its \<^verbatim>\<open>link_id\<close> and
  \<^verbatim>\<open>description\<close> changed. When the source node id is the destination node id, every
  port with another id than the source port id is unchanged: the destination port gets
  no annotation unless it is the source port itself.
\<close>

theorem add_node_connections_frame:
  "(link_id l \<noteq> None \<longrightarrow> (\<exists>nodes'. add_node_connections l nodes = Inr nodes')) \<and>
   (\<forall>nodes'. add_node_connections l nodes = Inr nodes' \<longrightarrow>
      length nodes' = length nodes \<and>
      (\<forall>a < length nodes.
         nodes' ! a = (nodes ! a)\<lparr>node_ports := node_ports (nodes' ! a)\<rparr> \<and>
         length (node_ports (nodes' ! a)) = length (node_ports (nodes ! a)) \<and>
         (\<forall>b < length (node_ports (nodes ! a)).
            (node_ports (nodes' ! a) ! b = node_ports (nodes ! a) ! b \<or>
             annotated_by l (nodes ! a) (node_ports (nodes ! a) ! b)
               (node_ports (nodes' ! a) ! b)) \<and>
            (destination_node_id l = Some (source_node_id l) \<and>
             port_id (node_ports (nodes ! a) ! b) \<noteq> source_port_id l \<longrightarrow>
               node_ports (nodes' ! a) ! b = node_ports (nodes ! a) ! b))))"
proof (intro conjI allI impI)
  assume "link_id l \<noteq> None"
  then show "\<exists>nodes'. add_node_connections l nodes = Inr nodes'"
    using add_node_connections_total by auto
next
  fix nodes' assume a: "add_node_connections l nodes = Inr nodes'"
  then have f: "list_all2 (\<lambda>n n'. n' = n\<lparr>node_ports := node_ports n'\<rparr> \<and>
       list_all2 (\<lambda>p p'. p' = p \<or> annotated_by l n p p') (node_ports n) (node_ports n')) nodes nodes'"
    unfolding add_node_connections_def by (rule add_conn_loop_frame)
  show "length nodes' = length nodes" using f by (simp add: list_all2_lengthD)
  fix a assume "a < length nodes"
  with f have g: "nodes' ! a = (nodes ! a)\<lparr>node_ports := node_ports (nodes' ! a)\<rparr>"
    "list_all2 (\<lambda>p p'. p' = p \<or> annotated_by l (nodes ! a) p p') (node_ports (nodes ! a)) (node_ports (nodes' ! a))"
    by (auto dest: list_all2_nthD)
  show "nodes' ! a = (nodes ! a)\<lparr>node_ports := node_ports (nodes' ! a)\<rparr>" by (rule g(1))
  show "length (node_ports (nodes' ! a)) = length (node_ports (nodes ! a))"
    using g(2) by (simp add: list_all2_lengthD)
  fix b assume "b < length (node_ports (nodes ! a))"
  with g(2) show h: "node_ports (nodes' ! a) ! b = node_ports (nodes ! a) ! b \<or>
            annotated_by l (nodes ! a) (node_ports (nodes ! a) ! b) (node_ports (nodes' ! a) ! b)"
    by (auto dest: list_all2_nthD)
  assume "destination_node_id l = Some (source_node_id l) \<and>
             port_id (node_ports (nodes ! a) ! b) \<noteq> source_port_id l"
  with h show "node_ports (nodes' ! a) ! b = node_ports (nodes ! a) ! b"
    by (auto simp: annotated_by_def)
qed

text \<open>An instance: a link between two ports of one node; only the source port changes.\<close>

theorem add_node_connections_frame_witness:
  "link_id \<lparr>description = ''d'', destination_node_id = Some 1, destination_port_id = Some 2,
            source_port_id = 1, source_node_id = 1, link_id = Some 7\<rparr> \<noteq> None \<and>
   add_node_connections
     \<lparr>description = ''d'', destination_node_id = Some 1, destination_port_id = Some 2,
       source_port_id = 1, source_node_id = 1, link_id = Some 7\<rparr>
     [\<lparr>node_id = 1, node_name = ''R1'', node_type = ''Router'',
       node_ports = [\<lparr>port_id = 1, port_name = ''f0/0'', port_link_id = None,
                      port_description = None\<rparr>,
                     \<lparr>port_id = 2, port_name = ''f0/1'', port_link_id = None,
                      port_description = None\<rparr>]\<rparr>]
   = Inr [\<lparr>node_id = 1, node_name = ''R1'', node_type = ''Router'',
       node_ports = [\<lparr>port_id = 1, port_name = ''f0/0'', port_link_id = Some 7,
                      port_description = Some ''connected to R1 on port f0/1''\<rparr>,
                     \<lparr>port_id = 2, port_name = ''f0/1'', port_link_id = None,
                      port_description = None\<rparr>]\<rparr>] \<and>
   (0::nat) < length [\<lparr>node_id = 1, node_name = ''R1'', node_type = ''Router'',
       node_ports = [\<lparr>port_id = 1, port_name = ''f0/0'', port_link_id = None,
                      port_description = None\<rparr>,
                     \<lparr>port_id = 2::int, port_name = ''f0/1'', port_link_id = None,
                      port_description = None\<rparr>]\<rparr>]"
  using add_node_connections_frame
    [of "\<lparr>description = ''d'', destination_node_id = Some 1, destination_port_id = Some 2,
          source_port_id = 1, source_node_id = 1, link_id = Some 7\<rparr>"
        "[\<lparr>node_id = 1, node_name = ''R1'', node_type = ''Router'',
       node_ports = [\<lparr>port_id = 1, port_name = ''f0/0'', port_link_id = None,
                      port_description = None\<rparr>,
                     \<lparr>port_id = 2, port_name = ''f0/1'', port_link_id = None,
                      port_description = None\<rparr>]\<rparr>]"]
  by (simp add: add_node_connections_def src_desc_of_def dest_desc_of_def
        get_port_name_from_id_def)

text \<open>
  The claim as stated says that the destination port of a link between two ports of one
  node gets no annotation. It gets one when it is the source port: a link from port 1 of
  node 1 to that same port.
\<close>

theorem add_node_connections_same_port_counterexample:
  "add_node_connections
     \<lparr>description = ''d'', destination_node_id = Some 1, destination_port_id = Some 1,
       source_port_id = 1, source_node_id = 1, link_id = Some 1\<rparr>
     [\<lparr>node_id = 1, node_name = ''R1'', node_type = ''Router'',
       node_ports = [\<lparr>port_id = 1, port_name = ''f0/0'', port_link_id = None,
                      port_description = None\<rparr>]\<rparr>]
   = Inr [\<lparr>node_id = 1, node_name = ''R1'', node_type = ''Router'',
       node_ports = [\<lparr>port_id = 1, port_name = ''f0/0'', port_link_id = Some 1,
                      port_description = Some ''connected to R1 on port f0/0''\<rparr>]\<rparr>]"
  by (simp add: add_node_connections_def src_desc_of_def dest_desc_of_def
        get_port_name_from_id_def)

end
